theory Spec2Isabelle
  imports Main "HOL-Library.Word"
begin

unbundle bit_operations_syntax

section \<open>The 6502 assembler of samples/asm6502.cpp\<close>

text \<open>
  A shallow embedding of the assembler engine of \<^verbatim>\<open>samples/asm6502.cpp\<close> and of the
  \<^verbatim>\<open>strref\<close> primitives of \<^verbatim>\<open>struse.h\<close> it calls.

  Conventions of the embedding.
  \<^item> A \<^verbatim>\<open>strref\<close> (pointer and length into a constant buffer) is the \<^typ>\<open>string\<close> of the
    characters it spans; the invalid \<^verbatim>\<open>strref\<close> (null or of length 0) is the empty string.
  \<^item> \<^verbatim>\<open>unsigned int\<close> and \<^verbatim>\<open>int\<close> values are \<^typ>\<open>32 word\<close>: arithmetic wraps, \<open><\<close> on
    words is the unsigned comparison, \<open><s\<close> the signed one.
  \<^item> Array indices and element counts are \<^typ>\<open>nat\<close>. A table holds far fewer than
    \<open>2 ^ 31\<close> entries, so the index arithmetic of the searches does not wrap.
\<close>

type_synonym u32 = "32 word"
type_synonym u8 = "8 word"

subsection \<open>\<^verbatim>\<open>struse.h\<close>: hashing and whole-string comparison\<close>

text \<open>\<^verbatim>\<open>while (left--) hash = (*scan++ ^ hash) * 16777619;\<close>\<close>

primrec fnv1a_from :: "u32 \<Rightarrow> string \<Rightarrow> u32" where
  "fnv1a_from hash [] = hash"
| "fnv1a_from hash (c # scan) = fnv1a_from ((of_char c XOR hash) * 16777619) scan"

definition fnv1a :: "string \<Rightarrow> u32" where
  "fnv1a s = fnv1a_from 2166136261 s"

definition int_tolower_ascii7 :: "char \<Rightarrow> char" where
  "int_tolower_ascii7 c =
     (if (of_char c :: nat) \<le> of_char CHR ''Z'' \<and> (of_char c :: nat) \<ge> of_char CHR ''A''
      then char_of ((of_char c :: nat) + of_char CHR ''a'' - of_char CHR ''A'')
      else c)"

text \<open>\<^verbatim>\<open>strref::same_str\<close>: whole-string comparison, case ignored.\<close>

fun compare_lower :: "string \<Rightarrow> string \<Rightarrow> bool" where
  "compare_lower [] _ = True"
| "compare_lower (c # scan) (d # compare) =
     (if int_tolower_ascii7 c \<noteq> int_tolower_ascii7 d then False else compare_lower scan compare)"
| "compare_lower (c # scan) [] = False"

definition same_str :: "string \<Rightarrow> string \<Rightarrow> bool" where
  "same_str s str = (if length s \<noteq> length str then False else compare_lower s str)"

text \<open>\<^verbatim>\<open>strref::same_str_case\<close>: whole-string comparison, case sensitive.\<close>

fun int_compare_substr_case :: "string \<Rightarrow> string \<Rightarrow> bool" where
  "int_compare_substr_case _ [] = True"
| "int_compare_substr_case (c # scan) (d # check) =
     (if c \<noteq> d then False else int_compare_substr_case scan check)"
| "int_compare_substr_case [] (d # check) = False"

definition same_str_case :: "string \<Rightarrow> string \<Rightarrow> bool" where
  "same_str_case s str = (if length s \<noteq> length str then False else int_compare_substr_case s str)"

subsection \<open>\<^verbatim>\<open>struse.h\<close>: characters, skipping and trimming\<close>

text \<open>
  Character tests take \<^verbatim>\<open>unsigned char\<close>. Where the source compares a plain \<^verbatim>\<open>char\<close> with a
  constant (\<^verbatim>\<open>*scan<=0x20\<close>), the character is read as a signed byte, as on the x86 targets
  of the project: \<open>schar\<close>.
\<close>

definition uchar :: "char \<Rightarrow> nat" where
  "uchar c = of_char c"

definition schar :: "char \<Rightarrow> int" where
  "schar c = (if uchar c < 128 then int (uchar c) else int (uchar c) - 256)"

definition is_ws :: "char \<Rightarrow> bool" where
  "is_ws c = (uchar c \<le> uchar CHR '' '')"

definition is_number :: "char \<Rightarrow> bool" where
  "is_number c = (uchar c \<ge> uchar CHR ''0'' \<and> uchar c \<le> uchar CHR ''9'')"

definition is_alphabetic :: "char \<Rightarrow> bool" where
  "is_alphabetic c = ((uchar c \<ge> uchar CHR ''a'' \<and> uchar c \<le> uchar CHR ''z'') \<or>
                      (uchar c \<ge> uchar CHR ''A'' \<and> uchar c \<le> uchar CHR ''Z''))"

definition is_alphanumeric :: "char \<Rightarrow> bool" where
  "is_alphanumeric c = (is_number c \<or> is_alphabetic c)"

definition is_valid_label :: "char \<Rightarrow> bool" where
  "is_valid_label c = (c = CHR ''_'' \<or> is_alphanumeric c)"

text \<open>\<^verbatim>\<open>get_first\<close>, \<^verbatim>\<open>get_last\<close>, \<^verbatim>\<open>operator[]\<close>: the character, or 0 outside the string.\<close>

definition get_first :: "string \<Rightarrow> char" where
  "get_first s = (case s of [] \<Rightarrow> CHR 0x00 | c # _ \<Rightarrow> c)"

definition get_last :: "string \<Rightarrow> char" where
  "get_last s = (if s = [] then CHR 0x00 else last s)"

definition char_at :: "string \<Rightarrow> nat \<Rightarrow> char" where
  "char_at s pos = (if pos < length s then s ! pos else CHR 0x00)"

text \<open>\<^verbatim>\<open>skip(count)\<close>, \<^verbatim>\<open>operator+=\<close>, \<^verbatim>\<open>operator+\<close>: forward by \<open>count\<close>, cleared when nothing is left.\<close>

definition skip :: "nat \<Rightarrow> string \<Rightarrow> string" where
  "skip count s = (if count < length s then drop count s else [])"

text \<open>\<^verbatim>\<open>operator++\<close>: forward by one character when valid.\<close>

definition incr :: "string \<Rightarrow> string" where
  "incr s = (case s of [] \<Rightarrow> [] | _ # r \<Rightarrow> r)"

text \<open>\<^verbatim>\<open>clip(count)\<close>: shorter by \<open>count\<close> at the end, cleared when nothing is left.\<close>

definition clip :: "nat \<Rightarrow> string \<Rightarrow> string" where
  "clip count s = (if count < length s then take (length s - count) s else [])"

definition len_whitespace :: "string \<Rightarrow> nat" where
  "len_whitespace s = length (takeWhile is_ws s)"

definition skip_whitespace :: "string \<Rightarrow> string" where
  "skip_whitespace s = skip (len_whitespace s) s"

text \<open>
  \<^verbatim>\<open>clip_trailing_whitespace\<close>:
  \<^verbatim>\<open>e = string+length; while (*--e<=0x20 && length) length--;\<close>
\<close>

definition clip_trailing_whitespace :: "string \<Rightarrow> string" where
  "clip_trailing_whitespace s = rev (dropWhile (\<lambda>c. schar c \<le> 0x20) (rev s))"

definition trim_whitespace :: "string \<Rightarrow> string" where
  "trim_whitespace s = skip_whitespace (clip_trailing_whitespace s)"

text \<open>\<^verbatim>\<open>len_label\<close>: the number of leading characters that can be part of a label.\<close>

definition len_label :: "string \<Rightarrow> nat" where
  "len_label s = length (takeWhile is_valid_label s)"

subsection \<open>\<^verbatim>\<open>struse.h\<close>: searching\<close>

text \<open>\<^verbatim>\<open>int_find_char\<close>: the first index of \<open>c\<close>, or -1.\<close>

fun int_find_char :: "char \<Rightarrow> string \<Rightarrow> int" where
  "int_find_char c [] = -1"
| "int_find_char c (d # scan) =
     (if d = c then 0 else (let o' = int_find_char c scan in if o' \<ge> 0 then o' + 1 else -1))"

definition find_char :: "string \<Rightarrow> char \<Rightarrow> int" where
  "find_char s c = (if s = [] then -1 else int_find_char c s)"

definition find_at :: "string \<Rightarrow> char \<Rightarrow> nat \<Rightarrow> int" where
  "find_at s c pos =
     (if length s > pos then
        (let o' = int_find_char c (drop pos s) in if o' \<ge> 0 then o' + int pos else -1)
      else -1)"

definition find_after :: "string \<Rightarrow> char \<Rightarrow> nat \<Rightarrow> int" where
  "find_after s c pos =
     (if length s > pos then
        (let o' = int_find_char c (drop (pos + 1) s) in if o' \<ge> 0 then o' + int pos + 1 else -1)
      else -1)"

text \<open>\<^verbatim>\<open>int_compare_substr\<close>: \<open>check\<close> is a prefix of \<open>scan\<close>, case ignored.\<close>

definition int_compare_substr :: "string \<Rightarrow> string \<Rightarrow> bool" where
  "int_compare_substr scan check =
     (if length scan < length check then False else compare_lower check scan)"

text \<open>
  \<^verbatim>\<open>strref::find(const strref str)\<close>: the position of the first occurrence of \<open>str\<close>, case
  ignored, or -1. \<open>find_scan\<close> is the loop \<^verbatim>\<open>while (left>=find_len)\<close>, \<open>pos\<close> being
  \<^verbatim>\<open>length-left\<close>.
\<close>

fun find_scan :: "string \<Rightarrow> string \<Rightarrow> nat \<Rightarrow> int" where
  "find_scan [] str pos = -1"
| "find_scan (d # scan) str pos =
     (if length (d # scan) \<ge> length str then
        (if int_tolower_ascii7 d = int_tolower_ascii7 (hd str) \<and> int_compare_substr scan (tl str)
         then int pos
         else find_scan scan str (pos + 1))
      else -1)"

definition find_str :: "string \<Rightarrow> string \<Rightarrow> int" where
  "find_str s str =
     (if str = [] \<or> s = [] \<or> length s < length str then -1 else find_scan s str 0)"

subsection \<open>\<^verbatim>\<open>struse.h\<close>: numbers\<close>

text \<open>
  \<^verbatim>\<open>atoi_skip\<close>: the decimal number at the start of the string, and the string moved past
  it. The value is an \<^verbatim>\<open>int\<close> accumulated as \<^verbatim>\<open>value = c-'0' + value*10\<close>. After a minus sign
  the source decrements \<open>left\<close> without advancing \<open>scan\<close>, so the digit loop stops at once.
\<close>

fun atoi_digits :: "u32 \<Rightarrow> string \<Rightarrow> u32 \<times> string" where
  "atoi_digits v [] = (v, [])"
| "atoi_digits v (c # scan) =
     (if schar c < schar CHR ''0'' \<or> schar c > schar CHR ''9'' then (v, c # scan)
      else atoi_digits (word_of_int (schar c - schar CHR ''0'') + v * 10) scan)"

definition atoi_skip :: "string \<Rightarrow> u32 \<times> string" where
  "atoi_skip s =
     (let scan = dropWhile (\<lambda>c. schar c \<le> 0x20) s in
      if scan = [] then (0, s)
      else if hd scan = CHR ''-'' then (- 0, skip (length s - (length scan - 1)) s)
      else (let (v, rest) = atoi_digits 0 scan in (v, skip (length s - length rest) s)))"

text \<open>
  Modelled from the spec: \<^verbatim>\<open>ahextoui_skip\<close> is called by the evaluator for the hexadecimal
  literal after \<^verbatim>\<open>$\<close> and is not among the sources; it is \<^verbatim>\<open>strref::ahextoui\<close> of
  \<^verbatim>\<open>struse.h\<close> (leading blanks, an optional \<^verbatim>\<open>0x\<close>, then hexadecimal digits accumulated as
  \<^verbatim>\<open>hex = (hex<<4) | digit\<close>), with the string moved past the digits read.
\<close>

definition hex_digit :: "char \<Rightarrow> u32 option" where
  "hex_digit c =
     (if schar c \<ge> schar CHR ''0'' \<and> schar c \<le> schar CHR ''9''
        then Some (word_of_int (schar c - schar CHR ''0''))
      else if schar c \<ge> schar CHR ''a'' \<and> schar c \<le> schar CHR ''f''
        then Some (word_of_int (schar c - schar CHR ''a'' + 10))
      else if schar c \<ge> schar CHR ''A'' \<and> schar c \<le> schar CHR ''F''
        then Some (word_of_int (schar c - schar CHR ''A'' + 10))
      else None)"

fun ahex_digits :: "u32 \<Rightarrow> string \<Rightarrow> u32 \<times> string" where
  "ahex_digits hex [] = (hex, [])"
| "ahex_digits hex (c # scan) =
     (case hex_digit c of
        None \<Rightarrow> (hex, c # scan)
      | Some d \<Rightarrow> ahex_digits (push_bit 4 hex OR d) scan)"

definition ahextoui_skip :: "string \<Rightarrow> u32 \<times> string" where
  "ahextoui_skip s =
     (let scan = dropWhile (\<lambda>c. schar c \<le> 0x20) s in
      if scan = [] then (0, s)
      else (let scan' = (if length scan > 2 \<and> scan ! 0 = CHR ''0'' \<and>
                            (scan ! 1 = CHR ''x'' \<or> scan ! 1 = CHR ''X'')
                         then drop 2 scan else scan);
                (hex, rest) = ahex_digits 0 scan'
            in (hex, skip (length s - length rest) s)))"

subsection \<open>\<^verbatim>\<open>struse.h\<close>: splitting\<close>

text \<open>
  Modelled from the spec: \<^verbatim>\<open>split_range_trim(range, pos)\<close> is called to split a label or a
  word off the front of a string and is not among the sources. It is modelled with
  \<^verbatim>\<open>find_any_char_or_range\<close> and \<^verbatim>\<open>split\<close> of \<^verbatim>\<open>struse.h\<close>: the split is at the first
  character, from \<open>pos\<close> on, that the range excludes (the whole string when there is none);
  both parts are trimmed; the front part is returned and the string keeps the rest.
  The two ranges of the assembler are \<^verbatim>\<open>"!0-9a-zA-Z_@$!"\<close> (\<open>word_char_range\<close>) and
  \<^verbatim>\<open>"!0-9a-zA-Z_@$!."\<close> (\<open>label_char_range\<close>); the leading \<^verbatim>\<open>!\<close> makes them exclusions.
\<close>

definition word_char_range :: "char \<Rightarrow> bool" where
  "word_char_range c =
     (is_alphanumeric c \<or> c = CHR ''_'' \<or> c = CHR ''@'' \<or> c = CHR ''$'' \<or> c = CHR ''!'')"

definition label_char_range :: "char \<Rightarrow> bool" where
  "label_char_range c = (word_char_range c \<or> c = CHR ''.'')"

definition find_not_in_range :: "(char \<Rightarrow> bool) \<Rightarrow> string \<Rightarrow> nat \<Rightarrow> nat" where
  "find_not_in_range rng s pos =
     (if pos \<ge> length s then length s else pos + length (takeWhile rng (drop pos s)))"

definition split_range_trim :: "(char \<Rightarrow> bool) \<Rightarrow> nat \<Rightarrow> string \<Rightarrow> string \<times> string" where
  "split_range_trim rng pos s =
     (let t = find_not_in_range rng s pos
      in (trim_whitespace (take t s), trim_whitespace (skip t s)))"

text \<open>
  \<^verbatim>\<open>split_token(c)\<close> and \<^verbatim>\<open>split_token_trim(c)\<close>:
  \<^verbatim>\<open>strref r; int t = find(c); if (t>=0) { r = *this + (t+1); length = t; } return r;\<close>
  The string returned is the part after the first \<open>c\<close> and the string itself keeps the
  part before it; without a \<open>c\<close> the string returned is empty and the string itself is
  unchanged. \<^verbatim>\<open>split_token_trim\<close> trims both. The pair is (returned, kept).
\<close>

definition split_token :: "char \<Rightarrow> string \<Rightarrow> string \<times> string" where
  "split_token c s =
     (let t = find_char s c in
      if t \<ge> 0 then (skip (nat t + 1) s, take (nat t) s) else ([], s))"

definition split_token_trim :: "char \<Rightarrow> string \<Rightarrow> string \<times> string" where
  "split_token_trim c s =
     (let (r, kept) = split_token c s in (trim_whitespace r, trim_whitespace kept))"

text \<open>
  Modelled from the spec: \<^verbatim>\<open>scoped_block_skip\<close> is not among the sources; it is the
  brace-matched block extraction of the text primitive (the span between an opening
  bracket and its balancing closing bracket, honouring nested brackets). On a string that
  starts with \<^verbatim>\<open>(\<close>, \<^verbatim>\<open>[\<close> or \<^verbatim>\<open>{\<close> it returns the text between that bracket and the matching
  one and moves the string past the closing bracket; otherwise, or without a match, it
  returns the empty string and leaves the string. The pair is (block, rest);
  \<open>scoped_close\<close> is the offset of the character after the matching bracket.
\<close>

fun scoped_close :: "char \<Rightarrow> char \<Rightarrow> nat \<Rightarrow> nat \<Rightarrow> string \<Rightarrow> nat option" where
  "scoped_close scope close depth pos [] = None"
| "scoped_close scope close depth pos (c # scan) =
     (let depth' = (if c = scope then depth + 1 else if c = close then depth - 1 else depth)
      in if depth' = 0 then Some (pos + 1) else scoped_close scope close depth' (pos + 1) scan)"

definition scoped_block_skip :: "string \<Rightarrow> string \<times> string" where
  "scoped_block_skip s =
     (let scope = get_first s in
      if scope = CHR ''('' \<or> scope = CHR ''['' \<or> scope = CHR ''{'' then
        (let close = (if scope = CHR ''('' then CHR '')'' else if scope = CHR ''['' then CHR '']''
                      else CHR ''}'')
         in case scoped_close scope close 0 0 s of
              None \<Rightarrow> ([], s)
            | Some e \<Rightarrow> (take (e - 2) (drop 1 s), skip e s))
      else ([], s))"

subsection \<open>The symbol table\<close>

text \<open>
  \<^verbatim>\<open>struct Label\<close>; the fields other than the name carry the prefix \<open>label_\<close>. The table \<^verbatim>\<open>pairArray<unsigned int, Label> labels\<close> is two arrays of
  one shared count, modelled as one list of (key, value) pairs.
\<close>

record Label =
  label_name :: string
  label_expression :: string
  label_value :: u32
  label_evaluated :: bool
  label_zero_page :: bool
  label_pc_relative :: bool

type_synonym label_table = "(u32 \<times> Label) list"

definition getKeys :: "(u32 \<times> 'v) list \<Rightarrow> u32 list" where
  "getKeys t = map fst t"

text \<open>
  \<^verbatim>\<open>FindLabelIndex\<close>: the inner loop
  \<^verbatim>\<open>while (index && table[index-1]==hash) index--;\<close>
\<close>

fun first_identical :: "u32 \<Rightarrow> u32 list \<Rightarrow> nat \<Rightarrow> nat" where
  "first_identical hash table 0 = 0"
| "first_identical hash table (Suc i) =
     (if table ! i = hash then first_identical hash table i else Suc i)"

text \<open>
  The binary search \<^verbatim>\<open>while (count!=first)\<close> with the adjustment after it. The variable
  \<open>first\<close> starts at 0 and \<open>index\<close> lies in \<open>[first, count)\<close>, so \<open>first \<le> count\<close> holds
  throughout and the loop test is \<open>first < count\<close>.
\<close>

function FindLabelIndex_loop :: "u32 \<Rightarrow> u32 list \<Rightarrow> nat \<Rightarrow> nat \<Rightarrow> nat \<Rightarrow> nat" where
  "FindLabelIndex_loop hash table maxc first count =
     (if first < count then
        (let index = (first + count) div 2;
             read = table ! index
         in if hash = read then first_identical hash table index
            else if hash > read then FindLabelIndex_loop hash table maxc (index + 1) count
            else FindLabelIndex_loop hash table maxc first index)
      else if count < maxc \<and> table ! count < hash then count + 1
      else if count \<noteq> 0 \<and> table ! (count - 1) > hash then count - 1
      else count)"
  by pat_completeness auto
termination
  by (relation "measure (\<lambda>(hash, table, maxc, first, count). count - first)") auto

definition FindLabelIndex :: "u32 \<Rightarrow> u32 list \<Rightarrow> nat" where
  "FindLabelIndex hash table = FindLabelIndex_loop hash table (length table) 0 (length table)"

text \<open>\<^verbatim>\<open>pairArray::insert(pos, key)\<close> (the new value is zero-filled) and \<^verbatim>\<open>remove(pos)\<close>.\<close>

definition zero_Label :: Label where
  "zero_Label = \<lparr>label_name = [], label_expression = [], label_value = 0,
                  label_evaluated = False, label_zero_page = False, label_pc_relative = False\<rparr>"

definition pa_insert :: "nat \<Rightarrow> u32 \<Rightarrow> 'v \<Rightarrow> (u32 \<times> 'v) list \<Rightarrow> (u32 \<times> 'v) list" where
  "pa_insert pos key zero t =
     (if pos > length t then t else take pos t @ [(key, zero)] @ drop pos t)"

definition pa_remove :: "nat \<Rightarrow> (u32 \<times> 'v) list \<Rightarrow> (u32 \<times> 'v) list" where
  "pa_remove pos t = (if pos < length t then take pos t @ drop (pos + 1) t else t)"

declare FindLabelIndex_loop.simps [simp del]

subsection \<open>Binary search: the index returned for a sorted table\<close>

text \<open>
  \<open>lower_bound hash table r\<close>: every entry before \<open>r\<close> is below \<open>hash\<close> and every entry
  from \<open>r\<close> on is at least \<open>hash\<close>.
\<close>

lemma first_identical_le: "first_identical hash table i \<le> i"
  by (induction i) auto

lemma first_identical_hit:
  "table ! i = hash \<Longrightarrow> table ! (first_identical hash table i) = hash"
  by (induction i) auto

lemma first_identical_prev:
  "0 < first_identical hash table i \<Longrightarrow> table ! (first_identical hash table i - 1) \<noteq> hash"
  by (induction i) auto

definition lower_bound :: "u32 \<Rightarrow> u32 list \<Rightarrow> nat \<Rightarrow> bool" where
  "lower_bound hash table r =
     (r \<le> length table \<and> list_all (\<lambda>x. x < hash) (take r table) \<and> list_all (\<lambda>x. hash \<le> x) (drop r table))"

lemma lower_boundI:
  assumes "r \<le> length table" "\<And>j. j < r \<Longrightarrow> table ! j < hash"
    "\<And>j. r \<le> j \<Longrightarrow> j < length table \<Longrightarrow> hash \<le> table ! j"
  shows "lower_bound hash table r"
  unfolding lower_bound_def list_all_iff using assms
  by (auto simp: in_set_conv_nth)

lemma first_identical_lower_bound:
  assumes "sorted table" "i < length table" "table ! i = hash"
  shows "lower_bound hash table (first_identical hash table i)"
proof (rule lower_boundI)
  let ?r = "first_identical hash table i"
  have le: "?r \<le> i" by (rule first_identical_le)
  show "?r \<le> length table" using le assms(2) by simp
  have hit: "table ! ?r = hash" using assms(3) by (rule first_identical_hit)
  show "table ! j < hash" if "j < ?r" for j
  proof -
    have "0 < ?r" using that by simp
    then have ne: "table ! (?r - 1) \<noteq> hash" by (rule first_identical_prev)
    have "table ! j \<le> table ! (?r - 1)"
      using assms(1,2) le that by (intro sorted_nth_mono) auto
    moreover have "table ! (?r - 1) \<le> table ! ?r"
      using assms(1,2) le that by (intro sorted_nth_mono) auto
    ultimately show ?thesis using ne hit by simp
  qed
  show "hash \<le> table ! j" if "?r \<le> j" "j < length table" for j
  proof -
    have "table ! ?r \<le> table ! j" using assms(1) that by (intro sorted_nth_mono) auto
    then show ?thesis using hit by simp
  qed
qed

lemma FindLabelIndex_loop_lower_bound:
  assumes "sorted table" "first \<le> count" "count \<le> length table"
    "\<And>j. j < first \<Longrightarrow> table ! j < hash"
    "\<And>j. count \<le> j \<Longrightarrow> j < length table \<Longrightarrow> hash < table ! j"
  shows "lower_bound hash table (FindLabelIndex_loop hash table (length table) first count)"
  using assms
proof (induction hash table "length table" first count rule: FindLabelIndex_loop.induct)
  case (1 hash table first count)
  show ?case
  proof (cases "first < count")
    case True
    define index where "index = (first + count) div 2"
    have idx: "first \<le> index" "index < count" using True by (auto simp: index_def)
    show ?thesis
    proof (cases "hash = table ! index")
      case True
      then show ?thesis
        using first_identical_lower_bound[of table index hash] "1.prems" idx \<open>first < count\<close>
        by (subst FindLabelIndex_loop.simps) (simp add: index_def Let_def)
    next
      case ne: False
      show ?thesis
      proof (cases "table ! index < hash")
        case lt: True
        have "lower_bound hash table (FindLabelIndex_loop hash table (length table) (index + 1) count)"
        proof (rule "1.hyps"(1)[OF True index_def refl ne lt])
          show "sorted table" by fact
          show "index + 1 \<le> count" using idx by simp
          show "count \<le> length table" by fact
          show "table ! j < hash" if "j < index + 1" for j
          proof -
            have "table ! j \<le> table ! index"
              using "1.prems"(1,3) idx that by (intro sorted_nth_mono) auto
            then show ?thesis using lt by simp
          qed
          show "hash < table ! j" if "count \<le> j" "j < length table" for j
            using "1.prems"(5) that by simp
        qed
        then show ?thesis using True ne lt
          by (subst FindLabelIndex_loop.simps) (simp add: index_def Let_def)
      next
        case ge: False
        then have gt: "hash < table ! index" using ne by simp
        have "lower_bound hash table (FindLabelIndex_loop hash table (length table) first index)"
        proof (rule "1.hyps"(2)[OF True index_def refl ne ge])
          show "sorted table" by fact
          show "first \<le> index" using idx by simp
          show "index \<le> length table" using idx "1.prems"(3) by simp
          show "table ! j < hash" if "j < first" for j using "1.prems"(4) that by simp
          show "hash < table ! j" if "index \<le> j" "j < length table" for j
          proof -
            have "table ! index \<le> table ! j"
              using "1.prems"(1) that by (intro sorted_nth_mono) auto
            then show ?thesis using gt by simp
          qed
        qed
        then show ?thesis using True ne ge
          by (subst FindLabelIndex_loop.simps) (simp add: index_def Let_def)
      qed
    qed
  next
    case False
    then have eq: "first = count" using "1.prems"(2) by simp
    have a: "\<not> (count < length table \<and> table ! count < hash)"
      using "1.prems"(5)[of count] by auto
    have b: "\<not> (count \<noteq> 0 \<and> table ! (count - 1) > hash)"
      using "1.prems"(4)[of "count - 1"] eq by auto
    have "lower_bound hash table count"
      using "1.prems" eq by (intro lower_boundI) (auto simp: less_imp_le)
    then show ?thesis using False a b
      by (subst FindLabelIndex_loop.simps) auto
  qed
qed

lemma FindLabelIndex_lower_bound:
  "sorted table \<Longrightarrow> lower_bound hash table (FindLabelIndex hash table)"
  unfolding FindLabelIndex_def
  by (rule FindLabelIndex_loop_lower_bound) auto

lemma lower_bound_nth:
  assumes "lower_bound hash table r"
  shows "j < r \<Longrightarrow> table ! j < hash" and "r \<le> j \<Longrightarrow> j < length table \<Longrightarrow> hash \<le> table ! j"
proof -
  from assms have r: "r \<le> length table" and lo: "list_all (\<lambda>x. x < hash) (take r table)"
    and hi: "list_all (\<lambda>x. hash \<le> x) (drop r table)"
    by (simp_all add: lower_bound_def)
  show "table ! j < hash" if "j < r"
  proof -
    have "take r table ! j \<in> set (take r table)" using that r by (intro nth_mem) simp
    then show ?thesis using lo that by (simp add: list_all_iff)
  qed
  show "hash \<le> table ! j" if "r \<le> j" "j < length table"
  proof -
    have "drop r table ! (j - r) \<in> set (drop r table)" using that r by (intro nth_mem) simp
    then show ?thesis using hi that r by (simp add: list_all_iff)
  qed
qed

lemma lower_bound_insert_sorted:
  assumes "sorted table" "lower_bound hash table r"
  shows "sorted (take r table @ [hash] @ drop r table)"
proof -
  have a: "\<forall>x\<in>set (take r table). x \<le> hash"
    using assms(2) by (auto simp: lower_bound_def list_all_iff less_imp_le)
  have b: "\<forall>x\<in>set (drop r table). hash \<le> x"
    using assms(2) by (auto simp: lower_bound_def list_all_iff)
  have c: "sorted (take r table)" "sorted (drop r table)"
    using assms(1) by (simp_all add: sorted_wrt_take sorted_wrt_drop)
  show ?thesis using a b c by (fastforce simp: sorted_append)
qed

subsection \<open>Status codes\<close>

text \<open>\<^verbatim>\<open>enum StatusCode\<close>, in the order of the source; \<open>status_num\<close> is the enumerator's value.\<close>

datatype StatusCode =
    STATUS_OK
  | STATUS_NOT_READY
  | ERROR_UNEXPECTED_CHARACTER_IN_EXPRESSION
  | ERROR_TOO_MANY_VALUES_IN_EXPRESSION
  | ERROR_TOO_MANY_OPERATORS_IN_EXPRESSION
  | ERROR_UNBALANCED_RIGHT_PARENTHESIS
  | ERROR_EXPRESSION_OPERATION
  | ERROR_EXPRESSION_MISSING_VALUES
  | ERROR_INSTRUCTION_NOT_ZP
  | ERROR_INVALID_ADDRESSING_MODE_FOR_BRANCH
  | ERROR_BRANCH_OUT_OF_RANGE
  | ERROR_LABEL_MISPLACED_INTERNAL
  | ERROR_BAD_ADDRESSING_MODE
  | ERROR_UNEXPECTED_CHARACTER_IN_ADDRESSING_MODE
  | ERROR_STOP_PROCESSING_ON_HIGHER
  | ERROR_TARGET_ADDRESS_MUST_EVALUATE_IMMEDIATELY
  | ERROR_TOO_DEEP_SCOPE
  | ERROR_UNBALANCED_SCOPE_CLOSURE
  | ERROR_BAD_MACRO_FORMAT
  | ERROR_ALIGN_MUST_EVALUATE_IMMEDIATELY
  | ERROR_OUT_OF_MEMORY_FOR_MACRO_EXPANSION

fun status_num :: "StatusCode \<Rightarrow> nat" where
  "status_num STATUS_OK = 0"
| "status_num STATUS_NOT_READY = 1"
| "status_num ERROR_UNEXPECTED_CHARACTER_IN_EXPRESSION = 2"
| "status_num ERROR_TOO_MANY_VALUES_IN_EXPRESSION = 3"
| "status_num ERROR_TOO_MANY_OPERATORS_IN_EXPRESSION = 4"
| "status_num ERROR_UNBALANCED_RIGHT_PARENTHESIS = 5"
| "status_num ERROR_EXPRESSION_OPERATION = 6"
| "status_num ERROR_EXPRESSION_MISSING_VALUES = 7"
| "status_num ERROR_INSTRUCTION_NOT_ZP = 8"
| "status_num ERROR_INVALID_ADDRESSING_MODE_FOR_BRANCH = 9"
| "status_num ERROR_BRANCH_OUT_OF_RANGE = 10"
| "status_num ERROR_LABEL_MISPLACED_INTERNAL = 11"
| "status_num ERROR_BAD_ADDRESSING_MODE = 12"
| "status_num ERROR_UNEXPECTED_CHARACTER_IN_ADDRESSING_MODE = 13"
| "status_num ERROR_STOP_PROCESSING_ON_HIGHER = 14"
| "status_num ERROR_TARGET_ADDRESS_MUST_EVALUATE_IMMEDIATELY = 15"
| "status_num ERROR_TOO_DEEP_SCOPE = 16"
| "status_num ERROR_UNBALANCED_SCOPE_CLOSURE = 17"
| "status_num ERROR_BAD_MACRO_FORMAT = 18"
| "status_num ERROR_ALIGN_MUST_EVALUATE_IMMEDIATELY = 19"
| "status_num ERROR_OUT_OF_MEMORY_FOR_MACRO_EXPANSION = 20"

subsection \<open>Label lookup\<close>

text \<open>
  \<^verbatim>\<open>Asm::GetLabel\<close>: binary search by hash, then a scan of the run of equal hashes comparing
  names with \<^verbatim>\<open>same_str\<close>. The result is the index of the record, \<open>None\<close> for \<^verbatim>\<open>nullptr\<close>.
\<close>

function GetLabel_scan :: "label_table \<Rightarrow> string \<Rightarrow> u32 \<Rightarrow> nat \<Rightarrow> nat option" where
  "GetLabel_scan tab label label_hash index =
     (if index < length tab \<and> label_hash = fst (tab ! index) then
        (if same_str label (label_name (snd (tab ! index))) then Some index
         else GetLabel_scan tab label label_hash (index + 1))
      else None)"
  by pat_completeness auto
termination
  by (relation "measure (\<lambda>(tab, label, label_hash, index). length tab - index)") auto

declare GetLabel_scan.simps [simp del]

definition GetLabel :: "label_table \<Rightarrow> string \<Rightarrow> nat option" where
  "GetLabel tab label =
     (let label_hash = fnv1a label;
          index = FindLabelIndex label_hash (getKeys tab)
      in GetLabel_scan tab label label_hash index)"

text \<open>\<^verbatim>\<open>Asm::AddLabel\<close>: insert a zeroed record at the index found; the index stands for the
  pointer returned.\<close>

definition AddLabel :: "u32 \<Rightarrow> label_table \<Rightarrow> nat \<times> label_table" where
  "AddLabel hash tab =
     (let index = FindLabelIndex hash (getKeys tab)
      in (index, pa_insert index hash zero_Label tab))"

subsection \<open>The expression evaluator\<close>

text \<open>\<^verbatim>\<open>enum EvalOperator\<close>: \<open>evop_num\<close> is the enumerator's value, which the shunting yard
  compares as the precedence (\<^verbatim>\<open>op>p\<close>).\<close>

datatype EvalOperator =
    EVOP_NONE | EVOP_VAL | EVOP_LPR | EVOP_RPR | EVOP_ADD | EVOP_SUB | EVOP_MUL | EVOP_DIV
  | EVOP_AND | EVOP_OR | EVOP_EOR | EVOP_SHL | EVOP_SHR

fun evop_num :: "EvalOperator \<Rightarrow> nat" where
  "evop_num EVOP_NONE = 0"
| "evop_num EVOP_VAL = 1"
| "evop_num EVOP_LPR = 2"
| "evop_num EVOP_RPR = 3"
| "evop_num EVOP_ADD = 4"
| "evop_num EVOP_SUB = 5"
| "evop_num EVOP_MUL = 6"
| "evop_num EVOP_DIV = 7"
| "evop_num EVOP_AND = 8"
| "evop_num EVOP_OR = 9"
| "evop_num EVOP_EOR = 10"
| "evop_num EVOP_SHL = 11"
| "evop_num EVOP_SHR = 12"

definition MAX_EVAL_VALUES :: nat where
  "MAX_EVAL_VALUES = 32"

definition MAX_EVAL_OPER :: nat where
  "MAX_EVAL_OPER = 64"

text \<open>
  Reading one token (the \<^verbatim>\<open>switch (c)\<close> of the loop): either the function returns a status at
  once, or the token is an operator \<open>op\<close>, a \<open>value\<close> and the expression moved forward.
  A single \<^verbatim>\<open>>\<close> or \<^verbatim>\<open><\<close> leaves \<open>op\<close> at \<open>EVOP_NONE\<close> and the expression where it is.
  There is no case for \<^verbatim>\<open>^\<close>: it falls to \<^verbatim>\<open>default\<close>.
\<close>

datatype token = Token EvalOperator u32 string | Return StatusCode

definition read_token :: "label_table \<Rightarrow> string \<Rightarrow> EvalOperator \<Rightarrow> u32 \<Rightarrow> u32 \<Rightarrow> u32 \<Rightarrow> token" where
  "read_token tab expression prev_op pc scope_pc scope_end_pc =
     (let c = get_first expression in
      if c = CHR ''$'' then
        (let (v, rest) = ahextoui_skip (incr expression) in Token EVOP_VAL v rest)
      else if c = CHR ''-'' then Token EVOP_SUB 0 (incr expression)
      else if c = CHR ''+'' then Token EVOP_ADD 0 (incr expression)
      else if c = CHR ''*'' then
        (if prev_op = EVOP_VAL \<or> prev_op = EVOP_RPR then Token EVOP_MUL 0 (incr expression)
         else Token EVOP_VAL pc (incr expression))
      else if c = CHR ''/'' then Token EVOP_DIV 0 (incr expression)
      else if c = CHR ''>'' then
        (if length expression \<ge> 2 \<and> char_at expression 1 = CHR ''>''
         then Token EVOP_SHR 0 (skip 2 expression) else Token EVOP_NONE 0 expression)
      else if c = CHR ''<'' then
        (if length expression \<ge> 2 \<and> char_at expression 1 = CHR ''<''
         then Token EVOP_SHL 0 (skip 2 expression) else Token EVOP_NONE 0 expression)
      else if c = CHR ''%'' then
        (if scope_end_pc <s 0 then Return STATUS_NOT_READY
         else Token EVOP_VAL scope_end_pc (incr expression))
      else if c = CHR ''|'' then Token EVOP_OR 0 (incr expression)
      else if c = CHR ''&'' then Token EVOP_AND 0 (incr expression)
      else if c = CHR ''('' then Token EVOP_LPR 0 (incr expression)
      else if c = CHR '')'' then Token EVOP_RPR 0 (incr expression)
      else if c = CHR ''!'' \<and> len_label (skip 1 expression) = 0 then
        (if scope_pc <s 0 then Return STATUS_NOT_READY
         else Token EVOP_VAL scope_pc (incr expression))
      else if is_number c then
        (let (v, rest) = atoi_skip expression in Token EVOP_VAL v rest)
      else if c = CHR ''!'' \<or> is_valid_label c then
        (let (label, rest) = split_range_trim label_char_range 0 expression in
         case GetLabel tab label of
           None \<Rightarrow> Return STATUS_NOT_READY
         | Some i \<Rightarrow>
             if \<not> label_evaluated (snd (tab ! i)) then Return STATUS_NOT_READY
             else Token EVOP_VAL (label_value (snd (tab ! i))) rest)
      else Return ERROR_UNEXPECTED_CHARACTER_IN_EXPRESSION)"

text \<open>
  The evaluator's arrays. \<^verbatim>\<open>op_stack\<close> is a list with the top of the stack first
  (\<^verbatim>\<open>sp\<close> is its length); \<^verbatim>\<open>ops\<close> is the postfix output in order (\<^verbatim>\<open>numOps\<close> is its
  length); \<^verbatim>\<open>values\<close> is the initialised prefix of the value array, \<^verbatim>\<open>values[0] = 0\<close> at
  the start, with \<^verbatim>\<open>numValues\<close> kept beside it. The arrays are of fixed size: a write at
  or past the size has no defined result, \<open>None\<close>.
\<close>

type_synonym eval_state = "EvalOperator list \<times> EvalOperator list \<times> u32 list \<times> nat"

definition ops_push :: "EvalOperator \<Rightarrow> EvalOperator list \<Rightarrow> EvalOperator list option" where
  "ops_push op ops = (if length ops < MAX_EVAL_OPER then Some (ops @ [op]) else None)"

definition stack_push :: "EvalOperator \<Rightarrow> EvalOperator list \<Rightarrow> EvalOperator list option" where
  "stack_push op op_stack =
     (if length op_stack < MAX_EVAL_OPER then Some (op # op_stack) else None)"

definition values_store :: "u32 list \<Rightarrow> nat \<Rightarrow> u32 \<Rightarrow> u32 list option" where
  "values_store vals i v =
     (if i \<ge> MAX_EVAL_VALUES then None
      else if i < length vals then Some (vals[i := v])
      else Some (vals @ [v]))"

text \<open>\<^verbatim>\<open>while (sp && op_stack[sp-1]!=EVOP_LPR) { sp--; ops[numOps++] = op_stack[sp]; }\<close>\<close>

fun pop_to_lpr :: "EvalOperator list \<Rightarrow> EvalOperator list \<Rightarrow> (EvalOperator list \<times> EvalOperator list) option" where
  "pop_to_lpr [] ops = Some ([], ops)"
| "pop_to_lpr (p # op_stack) ops =
     (if p = EVOP_LPR then Some (p # op_stack, ops)
      else case ops_push p ops of
             None \<Rightarrow> None
           | Some ops' \<Rightarrow> pop_to_lpr op_stack ops')"

text \<open>
  \<^verbatim>\<open>while (sp) { p = op_stack[sp-1]; if (p==EVOP_LPR || op>p) break; ops[numOps++] = p; sp--; }\<close>
\<close>

fun pop_not_lower :: "EvalOperator \<Rightarrow> EvalOperator list \<Rightarrow> EvalOperator list \<Rightarrow> (EvalOperator list \<times> EvalOperator list) option" where
  "pop_not_lower op [] ops = Some ([], ops)"
| "pop_not_lower op (p # op_stack) ops =
     (if p = EVOP_LPR \<or> evop_num op > evop_num p then Some (p # op_stack, ops)
      else case ops_push p ops of
             None \<Rightarrow> None
           | Some ops' \<Rightarrow> pop_not_lower op op_stack ops')"

text \<open>The body of the shunting yard for one token; \<open>Inl\<close> is a status returned at once.\<close>

definition shunt :: "EvalOperator \<Rightarrow> u32 \<Rightarrow> eval_state \<Rightarrow> (StatusCode + eval_state) option" where
  "shunt op v st =
     (case st of (op_stack, ops, vals, numValues) \<Rightarrow>
        if op = EVOP_VAL then
          (case values_store vals numValues v of
             None \<Rightarrow> None
           | Some vals' \<Rightarrow>
               (case ops_push op ops of
                  None \<Rightarrow> None
                | Some ops' \<Rightarrow> Some (Inr (op_stack, ops', vals', numValues + 1))))
        else if op = EVOP_LPR then
          (case stack_push op op_stack of
             None \<Rightarrow> None
           | Some op_stack' \<Rightarrow> Some (Inr (op_stack', ops, vals, numValues)))
        else if op = EVOP_RPR then
          (case pop_to_lpr op_stack ops of
             None \<Rightarrow> None
           | Some (op_stack', ops') \<Rightarrow>
               if op_stack' = [] \<or> hd op_stack' \<noteq> EVOP_LPR
               then Some (Inl ERROR_UNBALANCED_RIGHT_PARENTHESIS)
               else Some (Inr (tl op_stack', ops', vals, numValues)))
        else
          (case pop_not_lower op op_stack ops of
             None \<Rightarrow> None
           | Some (op_stack', ops') \<Rightarrow>
               (case stack_push op op_stack' of
                  None \<Rightarrow> None
                | Some op_stack'' \<Rightarrow> Some (Inr (op_stack'', ops', vals, numValues)))))"

text \<open>Facts about one step, for the termination of the loop.\<close>

lemma skip_length_le: "length (skip n s) \<le> length s"
  by (simp add: skip_def)

lemma skip_whitespace_length_le: "length (skip_whitespace s) \<le> length s"
  by (simp add: skip_whitespace_def skip_length_le)

lemma clip_trailing_whitespace_length_le: "length (clip_trailing_whitespace s) \<le> length s"
proof -
  have "length (dropWhile (\<lambda>c. schar c \<le> 0x20) (rev s)) \<le> length (rev s)"
    by (rule length_dropWhile_le)
  then show ?thesis by (simp add: clip_trailing_whitespace_def)
qed

lemma trim_whitespace_length_le: "length (trim_whitespace s) \<le> length s"
  unfolding trim_whitespace_def
  using skip_whitespace_length_le[of "clip_trailing_whitespace s"]
    clip_trailing_whitespace_length_le[of s] by simp

lemma incr_length: "s \<noteq> [] \<Longrightarrow> length (incr s) < length s"
  by (cases s) (simp_all add: incr_def)

lemma atoi_digits_length: "atoi_digits v s = (v', rest) \<Longrightarrow> length rest \<le> length s"
  by (induction v s rule: atoi_digits.induct) (auto split: if_splits)

lemma atoi_digits_first:
  "is_number c \<Longrightarrow> atoi_digits v (c # s) = (v', rest) \<Longrightarrow> length rest \<le> length s"
proof -
  assume n: "is_number c" and a: "atoi_digits v (c # s) = (v', rest)"
  have "uchar c < 128" using n by (simp add: is_number_def uchar_def)
  then have "\<not> (schar c < schar CHR ''0'' \<or> schar c > schar CHR ''9'')"
    using n by (simp add: is_number_def schar_def uchar_def)
  then show ?thesis using a atoi_digits_length by simp
qed

lemma ahex_digits_length: "ahex_digits v s = (v', rest) \<Longrightarrow> length rest \<le> length s"
  by (induction v s rule: ahex_digits.induct) (auto split: option.splits)

lemma atoi_skip_length:
  assumes "is_number (get_first s)" "atoi_skip s = (v, rest)"
  shows "length rest < length s"
proof -
  from assms(1) obtain c s' where s: "s = c # s'" and n: "is_number c"
    by (cases s) (auto simp: get_first_def is_number_def uchar_def)
  have u: "uchar c < 128" "uchar c \<ge> 48" using n by (simp_all add: is_number_def uchar_def)
  then have nws: "\<not> schar c \<le> 0x20" by (simp add: schar_def)
  have nm: "c \<noteq> CHR ''-''" using u by (auto simp: uchar_def)
  obtain v' r where d: "atoi_digits 0 (c # s') = (v', r)" by (cases "atoi_digits 0 (c # s')")
  have r: "length r \<le> length s'" using atoi_digits_first[OF n d] .
  have "rest = skip (length s - length r) s"
    using assms(2) s nws nm d by (simp add: atoi_skip_def)
  then show ?thesis using r s by (simp add: skip_def)
qed

lemma ahextoui_skip_length: "ahextoui_skip s = (v, rest) \<Longrightarrow> length rest \<le> length s"
  by (auto simp: ahextoui_skip_def Let_def skip_def split: if_splits prod.splits)

lemma split_range_trim_length:
  assumes "rng (get_first s)" "s \<noteq> []" "split_range_trim rng 0 s = (l, rest)"
  shows "length rest < length s"
proof -
  from assms(2) obtain c s' where s: "s = c # s'" by (cases s) auto
  have c: "rng c" using assms(1) s by (simp add: get_first_def)
  have t: "find_not_in_range rng s 0 \<ge> 1" using s c by (simp add: find_not_in_range_def)
  have "rest = trim_whitespace (skip (find_not_in_range rng s 0) s)"
    using assms(3) by (simp add: split_range_trim_def Let_def)
  moreover have "length (skip (find_not_in_range rng s 0) s) < length s"
    using t s by (auto simp: skip_def)
  ultimately show ?thesis
    using trim_whitespace_length_le[of "skip (find_not_in_range rng s 0) s"] by simp
qed

lemma valid_label_in_range: "c = CHR ''!'' \<or> is_valid_label c \<Longrightarrow> label_char_range c"
  by (auto simp: label_char_range_def word_char_range_def is_valid_label_def)

lemma ops_push_length: "ops_push p ops = Some ops' \<Longrightarrow> length ops' = length ops + 1 \<and> length ops' \<le> MAX_EVAL_OPER"
  by (auto simp: ops_push_def split: if_splits)

lemma pop_not_lower_length:
  "pop_not_lower op stk ops = Some (stk', ops') \<Longrightarrow>
     length stk' + length ops' = length stk + length ops \<and>
     ((stk' = stk \<and> ops' = ops) \<or> (length ops < length ops' \<and> length ops' \<le> MAX_EVAL_OPER))"
proof (induction op stk ops arbitrary: stk' ops' rule: pop_not_lower.induct)
  case (1 op ops)
  then show ?case by simp
next
  case (2 op p op_stack ops)
  show ?case
  proof (cases "p = EVOP_LPR \<or> evop_num op > evop_num p")
    case True
    then show ?thesis using "2.prems" by auto
  next
    case False
    then obtain ops1 where p1: "ops_push p ops = Some ops1"
      and r: "pop_not_lower op op_stack ops1 = Some (stk', ops')"
      using "2.prems" by (auto split: option.splits)
    from "2.IH"[OF False p1 r] ops_push_length[OF p1]
    show ?thesis by auto
  qed
qed

lemma shunt_none_measure:
  assumes "shunt EVOP_NONE v (stk, ops, vals, nv) = Some (Inr (stk', ops', vals', nv'))"
    "length ops' \<noteq> MAX_EVAL_OPER" "length stk' \<noteq> MAX_EVAL_OPER"
  shows "(MAX_EVAL_OPER - length ops') + (MAX_EVAL_OPER - length stk')
       < (MAX_EVAL_OPER - length ops) + (MAX_EVAL_OPER - length stk)"
proof -
  from assms(1) obtain stk1 where
    p: "pop_not_lower EVOP_NONE stk ops = Some (stk1, ops')" and
    q: "stack_push EVOP_NONE stk1 = Some stk'"
    by (auto simp: shunt_def split: option.splits)
  from q have s: "stk' = EVOP_NONE # stk1" "length stk1 < MAX_EVAL_OPER"
    by (auto simp: stack_push_def split: if_splits)
  from pop_not_lower_length[OF p] s assms(2,3) show ?thesis
    by (auto simp: MAX_EVAL_OPER_def)
qed

lemma read_token_cases:
  assumes "read_token tab e prev_op pc scope_pc scope_end_pc = Token op v rest"
  shows "(op \<noteq> EVOP_NONE \<and> rest = incr e)
       \<or> (op \<noteq> EVOP_NONE \<and> length e \<ge> 2 \<and> rest = skip 2 e)
       \<or> (op = EVOP_NONE \<and> rest = e)
       \<or> (\<exists>x. ahextoui_skip (incr e) = (x, rest))
       \<or> (is_number (get_first e) \<and> (\<exists>x. atoi_skip e = (x, rest)))
       \<or> ((get_first e = CHR ''!'' \<or> is_valid_label (get_first e)) \<and>
            (\<exists>x. split_range_trim label_char_range 0 e = (x, rest)))"
  using assms unfolding read_token_def Let_def
  by (simp split: if_split_asm prod.split_asm option.split_asm)

lemma read_token_length:
  assumes "read_token tab e prev_op pc scope_pc scope_end_pc = Token op v rest" "e \<noteq> []"
  shows "length rest \<le> length e \<and> (op \<noteq> EVOP_NONE \<longrightarrow> length rest < length e)"
proof -
  have i: "length (incr e) < length e" using assms(2) by (rule incr_length)
  consider (a) "op \<noteq> EVOP_NONE" "rest = incr e"
    | (b) "op \<noteq> EVOP_NONE" "length e \<ge> 2" "rest = skip 2 e"
    | (c) "op = EVOP_NONE" "rest = e"
    | (d) x where "ahextoui_skip (incr e) = (x, rest)"
    | (e) x where "is_number (get_first e)" "atoi_skip e = (x, rest)"
    | (f) x where "get_first e = CHR ''!'' \<or> is_valid_label (get_first e)"
        "split_range_trim label_char_range 0 e = (x, rest)"
    using read_token_cases[OF assms(1)] by blast
  then show ?thesis
  proof cases
    case a
    then show ?thesis using i by simp
  next
    case b
    then show ?thesis by (auto simp: skip_def)
  next
    case c
    then show ?thesis by simp
  next
    case d
    have "length rest \<le> length (incr e)" using d by (rule ahextoui_skip_length)
    then show ?thesis using i by simp
  next
    case e
    have "length rest < length e" using e by (rule atoi_skip_length)
    then show ?thesis by simp
  next
    case f
    have "label_char_range (get_first e)" using f(1) by (rule valid_label_in_range)
    then have "length rest < length e" using assms(2) f(2) by (rule split_range_trim_length)
    then show ?thesis by simp
  qed
qed

text \<open>
  The loop \<^verbatim>\<open>while (expression)\<close>: skip blanks, read a token, run the shunting yard
  on it, check the bounds, go on with \<open>prev_op = op\<close>. A single \<^verbatim>\<open>>\<close> does not move the
  expression: the loop then runs until \<open>numOps\<close> reaches its bound.
\<close>

lemma read_token_empty:
  "read_token tab [] prev_op pc scope_pc scope_end_pc = Return ERROR_UNEXPECTED_CHARACTER_IN_EXPRESSION"
  by (simp add: read_token_def get_first_def is_number_def is_valid_label_def is_alphanumeric_def
      is_alphabetic_def uchar_def)

function EvalExpression_loop ::
  "label_table \<Rightarrow> u32 \<Rightarrow> u32 \<Rightarrow> u32 \<Rightarrow> string \<Rightarrow> EvalOperator \<Rightarrow> eval_state
     \<Rightarrow> (StatusCode + eval_state) option" where
  "EvalExpression_loop tab pc scope_pc scope_end_pc expression prev_op st =
     (if expression = [] then Some (Inr st)
      else
        (case read_token tab (skip_whitespace expression) prev_op pc scope_pc scope_end_pc of
           Return status \<Rightarrow> Some (Inl status)
         | Token op v rest \<Rightarrow>
             (case shunt op v st of
                None \<Rightarrow> None
              | Some (Inl status) \<Rightarrow> Some (Inl status)
              | Some (Inr st') \<Rightarrow>
                  if snd (snd (snd st')) = MAX_EVAL_VALUES
                    then Some (Inl ERROR_TOO_MANY_VALUES_IN_EXPRESSION)
                  else if length (fst (snd st')) = MAX_EVAL_OPER \<or> length (fst st') = MAX_EVAL_OPER
                    then Some (Inl ERROR_TOO_MANY_OPERATORS_IN_EXPRESSION)
                  else EvalExpression_loop tab pc scope_pc scope_end_pc rest op st')))"
  by pat_completeness auto
termination
proof (relation "measures [\<lambda>(tab, pc, scope_pc, scope_end_pc, expression, prev_op, st). length expression,
                           \<lambda>(tab, pc, scope_pc, scope_end_pc, expression, prev_op, st).
                              (MAX_EVAL_OPER - length (fst (snd st))) + (MAX_EVAL_OPER - length (fst st))]",
       goal_cases)
  case 1
  then show ?case by simp
next
  case (2 tab pc scope_pc scope_end_pc expression prev_op st op v rest x2a st')
  let ?e = "skip_whitespace expression"
  have ne: "?e \<noteq> []" using 2(2) read_token_empty by (cases "?e = []") auto
  from read_token_length[OF 2(2) ne]
  have r: "length rest \<le> length ?e" "op \<noteq> EVOP_NONE \<Longrightarrow> length rest < length ?e" by auto
  have le: "length ?e \<le> length expression" by (rule skip_whitespace_length_le)
  show ?case
  proof (cases "op = EVOP_NONE")
    case False
    then show ?thesis using r le by simp
  next
    case True
    obtain stk ops vals nv where st: "st = (stk, ops, vals, nv)" by (cases st)
    obtain stk' ops' vals' nv' where st': "st' = (stk', ops', vals', nv')" by (cases st')
    have sh: "shunt EVOP_NONE v (stk, ops, vals, nv) = Some (Inr (stk', ops', vals', nv'))"
      using 2(3,4) True st st' by simp
    have "(MAX_EVAL_OPER - length ops') + (MAX_EVAL_OPER - length stk')
       < (MAX_EVAL_OPER - length ops) + (MAX_EVAL_OPER - length stk)"
      using shunt_none_measure[OF sh] 2(6) st' by simp
    then show ?thesis using r(1) le st st' by auto
  qed
qed

declare EvalExpression_loop.simps [simp del]

text \<open>\<^verbatim>\<open>while (sp) { sp--; ops[numOps++] = op_stack[sp]; }\<close>\<close>

fun pop_all :: "EvalOperator list \<Rightarrow> EvalOperator list \<Rightarrow> EvalOperator list option" where
  "pop_all [] ops = Some ops"
| "pop_all (p # op_stack) ops =
     (case ops_push p ops of
        None \<Rightarrow> None
      | Some ops' \<Rightarrow> pop_all op_stack ops')"

text \<open>
  The operators of the fold on \<^verbatim>\<open>int\<close>. Sums, differences and products wrap. The quotient
  truncates towards zero; a division by zero and \<open>INT_MIN / -1\<close> have no defined result.
  A shift by a negative count or by 32 or more has no defined result; \<^verbatim>\<open>>>\<close> on a negative
  value is the arithmetic shift.
\<close>

definition c_div :: "u32 \<Rightarrow> u32 \<Rightarrow> u32 option" where
  "c_div a b =
     (if b = 0 \<or> (a = - 2147483648 \<and> b = - 1) then None
      else Some (word_of_int (sgn (sint a) * sgn (sint b) * (\<bar>sint a\<bar> div \<bar>sint b\<bar>))))"

definition c_shl :: "u32 \<Rightarrow> u32 \<Rightarrow> u32 option" where
  "c_shl a b = (if b <s 0 \<or> 32 \<le>s b then None else Some (push_bit (unat b) a))"

definition c_shr :: "u32 \<Rightarrow> u32 \<Rightarrow> u32 option" where
  "c_shr a b = (if b <s 0 \<or> 32 \<le>s b then None else Some (signed_drop_bit (unat b) a))"

fun is_binary :: "EvalOperator \<Rightarrow> bool" where
  "is_binary EVOP_NONE = False"
| "is_binary EVOP_VAL = False"
| "is_binary EVOP_LPR = False"
| "is_binary EVOP_RPR = False"
| "is_binary _ = True"

fun operate :: "EvalOperator \<Rightarrow> u32 \<Rightarrow> u32 \<Rightarrow> u32 option" where
  "operate EVOP_ADD a b = Some (a + b)"
| "operate EVOP_SUB a b = Some (a - b)"
| "operate EVOP_MUL a b = Some (a * b)"
| "operate EVOP_DIV a b = c_div a b"
| "operate EVOP_AND a b = Some (a AND b)"
| "operate EVOP_OR a b = Some (a OR b)"
| "operate EVOP_EOR a b = Some (a XOR b)"
| "operate EVOP_SHL a b = c_shl a b"
| "operate EVOP_SHR a b = c_shr a b"
| "operate _ a b = None"

text \<open>
  The fold of the postfix form, \<^verbatim>\<open>for (int o = 0; o<numOps; o++)\<close>. The value array is both
  the queue read at \<open>valIdx\<close> and the stack written at \<open>sp\<close>. The result is the array
  after the loop, or the status returned from inside it. (The postfix form holds as many
  \<open>EVOP_VAL\<close> as there are values, and \<open>sp \<le> valIdx\<close>, so the array is read and written
  inside its initialised part.)
\<close>

fun rpn_fold :: "EvalOperator list \<Rightarrow> nat \<Rightarrow> nat \<Rightarrow> u32 list \<Rightarrow> (StatusCode + u32 list) option" where
  "rpn_fold [] sp valIdx vals = Some (Inr vals)"
| "rpn_fold (op # ops) sp valIdx vals =
     (if op \<noteq> EVOP_VAL \<and> sp < 2 then Some (Inr vals)
      else if op = EVOP_VAL then rpn_fold ops (sp + 1) (valIdx + 1) (vals[sp := vals ! valIdx])
      else if is_binary op then
        (let sp' = sp - 1 in
         case operate op (vals ! (sp' - 1)) (vals ! sp') of
           None \<Rightarrow> None
         | Some r \<Rightarrow> rpn_fold ops sp' valIdx (vals[sp' - 1 := r]))
      else Some (Inl ERROR_EXPRESSION_OPERATION))"

text \<open>
  \<^verbatim>\<open>Asm::EvalExpression\<close>. The result is the status returned and the content of \<^verbatim>\<open>result\<close>
  after the call (\<^verbatim>\<open>result\<close> is written only before \<^verbatim>\<open>return STATUS_OK\<close>); \<open>None\<close> when the
  evaluation has no defined result.
\<close>

definition EvalExpression ::
  "label_table \<Rightarrow> string \<Rightarrow> u32 \<Rightarrow> u32 \<Rightarrow> u32 \<Rightarrow> u32 \<Rightarrow> (StatusCode \<times> u32) option" where
  "EvalExpression tab expression pc scope_pc scope_end_pc result =
     (let hiByte = (char_at expression 0 = CHR ''>'');
          loByte = (\<not> hiByte \<and> char_at expression 0 = CHR ''<'');
          expression' = (if hiByte \<or> loByte then incr expression else expression)
      in case EvalExpression_loop tab pc scope_pc scope_end_pc expression' EVOP_NONE
                ([], [], [0], 0) of
           None \<Rightarrow> None
         | Some (Inl status) \<Rightarrow> Some (status, result)
         | Some (Inr (op_stack, ops, vals, numValues)) \<Rightarrow>
             (case pop_all op_stack ops of
                None \<Rightarrow> None
              | Some ops' \<Rightarrow>
                  (case rpn_fold ops' 0 0 vals of
                     None \<Rightarrow> None
                   | Some (Inl status) \<Rightarrow> Some (status, result)
                   | Some (Inr vals') \<Rightarrow>
                       (let val = vals' ! 0 in
                        if hiByte then Some (STATUS_OK, signed_drop_bit 8 val AND 0xff)
                        else if loByte then Some (STATUS_OK, val AND 0xff)
                        else Some (STATUS_OK, val)))))"

text \<open>The statuses the evaluator can return.\<close>

lemma read_token_status:
  "read_token tab e prev_op pc scope_pc scope_end_pc = Return status \<Longrightarrow>
     status = STATUS_NOT_READY \<or> status = ERROR_UNEXPECTED_CHARACTER_IN_EXPRESSION"
  unfolding read_token_def Let_def
  by (simp split: if_split_asm prod.split_asm option.split_asm)

lemma shunt_status:
  "shunt op v st = Some (Inl status) \<Longrightarrow> status = ERROR_UNBALANCED_RIGHT_PARENTHESIS"
  unfolding shunt_def
  by (simp split: prod.split_asm if_split_asm option.split_asm)

lemma EvalExpression_loop_status:
  "EvalExpression_loop tab pc scope_pc scope_end_pc e prev_op st = Some (Inl status) \<Longrightarrow>
     status \<noteq> ERROR_EXPRESSION_MISSING_VALUES"
proof (induction tab pc scope_pc scope_end_pc e prev_op st
    rule: EvalExpression_loop.induct)
  case (1 tab pc scope_pc scope_end_pc expression prev_op st)
  show ?case
  proof (cases "expression = []")
    case True
    then show ?thesis using "1.prems" by (simp add: EvalExpression_loop.simps)
  next
    case ne: False
    show ?thesis
    proof (cases "read_token tab (skip_whitespace expression) prev_op pc scope_pc scope_end_pc")
      case (Return s)
      then show ?thesis using "1.prems" ne read_token_status[OF Return]
        by (auto simp: EvalExpression_loop.simps)
    next
      case (Token op v rest)
      show ?thesis
      proof (cases "shunt op v st")
        case None
        then show ?thesis using "1.prems" ne Token by (simp add: EvalExpression_loop.simps)
      next
        case (Some r)
        show ?thesis
        proof (cases r)
          case (Inl s)
          then show ?thesis using "1.prems" ne Token Some shunt_status[of op v st s]
            by (auto simp: EvalExpression_loop.simps)
        next
          case (Inr st')
          show ?thesis
          proof (cases "snd (snd (snd st')) = MAX_EVAL_VALUES")
            case True
            then show ?thesis using "1.prems" ne Token Some Inr
              by (auto simp: EvalExpression_loop.simps)
          next
            case nv: False
            show ?thesis
            proof (cases "length (fst (snd st')) = MAX_EVAL_OPER \<or> length (fst st') = MAX_EVAL_OPER")
              case True
              then show ?thesis using "1.prems" ne Token Some Inr nv
                by (auto simp: EvalExpression_loop.simps)
            next
              case False
              have "EvalExpression_loop tab pc scope_pc scope_end_pc rest op st' = Some (Inl status)"
                using "1.prems" ne Token Some Inr nv False
                by (simp add: EvalExpression_loop.simps)
              then show ?thesis
                using "1.IH"[OF ne Token Some Inr nv False] by simp
            qed
          qed
        qed
      qed
    qed
  qed
qed

lemma rpn_fold_status:
  "rpn_fold ops sp valIdx vals = Some (Inl status) \<Longrightarrow> status = ERROR_EXPRESSION_OPERATION"
  by (induction ops sp valIdx vals rule: rpn_fold.induct)
     (auto simp: Let_def split: if_split_asm option.split_asm)

lemma EvalExpression_status:
  "EvalExpression tab e pc scope_pc scope_end_pc result = Some (status, r) \<Longrightarrow>
     status \<noteq> ERROR_EXPRESSION_MISSING_VALUES"
  unfolding EvalExpression_def Let_def
  by (auto split: option.split_asm sum.split_asm prod.split_asm if_split_asm
      dest: EvalExpression_loop_status rpn_fold_status)

subsection \<open>Expressions as trees, and what the evaluator computes for them\<close>



































subsection \<open>The state of the assembly\<close>

text \<open>
  \<^verbatim>\<open>struct LateEval\<close> (fields with the prefix \<open>le_\<close>). A target is a pointer into the output
  buffer in the source; here it is the offset from the start of the buffer.
\<close>

datatype LateEvalType = LET_LABEL | LET_ABS_REF | LET_BRANCH | LET_BYTE

record LateEval =
  le_target :: nat
  le_address :: u32
  le_scope :: u32
  le_label :: string
  le_expression :: string
  le_source_file :: string
  le_type :: LateEvalType

text \<open>\<^verbatim>\<open>struct Macro\<close> and \<^verbatim>\<open>struct SourceContext\<close>.\<close>

record Macro =
  macro_name :: string
  macro_text :: string
  macro_source_name :: string
  macro_source_file :: string

record SourceContext =
  source_name :: string
  source_file :: string
  code_segment :: string
  read_source :: string

text \<open>
  \<^verbatim>\<open>class Asm\<close>. The output buffer is the list of the bytes written so far (\<^verbatim>\<open>curr\<close> is its
  end); it is taken to have room, as \<^verbatim>\<open>CheckOutputCapacity\<close> provides. \<open>contextStack\<close> has
  its top first. \<open>diagnostics\<close> collects the statuses of the error lines written to
  \<^verbatim>\<open>stderr\<close>.
\<close>

record Asm =
  labels :: label_table
  macros :: "(u32 \<times> Macro) list"
  lateEval :: "LateEval list"
  localLabels :: "string list"
  contextStack :: "SourceContext list"
  "output" :: "u8 list"
  address :: u32
  load_address :: u32
  scope_address :: "u32 list"
  scope_depth :: int
  set_load_address :: bool
  diagnostics :: "StatusCode list"

definition MAX_LABELS_EVAL_ALL :: nat where
  "MAX_LABELS_EVAL_ALL = 16"

definition MAX_SCOPE_DEPTH :: nat where
  "MAX_SCOPE_DEPTH = 32"

text \<open>\<^verbatim>\<open>scope_address[scope_depth]\<close>; outside the array the read has no defined result.\<close>

definition scope_pc_of :: "Asm \<Rightarrow> u32 option" where
  "scope_pc_of st =
     (if 0 \<le> scope_depth st \<and> nat (scope_depth st) < length (scope_address st)
      then Some (scope_address st ! nat (scope_depth st)) else None)"

text \<open>The two overloads of \<^verbatim>\<open>Asm::AddLateEval\<close>.\<close>

definition AddLateEval_target ::
  "u32 \<Rightarrow> u32 \<Rightarrow> nat \<Rightarrow> string \<Rightarrow> string \<Rightarrow> LateEvalType \<Rightarrow> Asm \<Rightarrow> Asm" where
  "AddLateEval_target pc scope_pc target expr src ty st =
     st\<lparr>lateEval := lateEval st @
        [\<lparr>le_target = target, le_address = pc, le_scope = scope_pc, le_label = [],
          le_expression = expr, le_source_file = src, le_type = ty\<rparr>]\<rparr>"

definition AddLateEval_label ::
  "string \<Rightarrow> u32 \<Rightarrow> u32 \<Rightarrow> string \<Rightarrow> LateEvalType \<Rightarrow> Asm \<Rightarrow> Asm" where
  "AddLateEval_label label pc scope_pc expr ty st =
     st\<lparr>lateEval := lateEval st @
        [\<lparr>le_target = 0, le_address = pc, le_scope = scope_pc, le_label = label,
          le_expression = expr, le_source_file = [], le_type = ty\<rparr>]\<rparr>"

subsection \<open>Local labels\<close>

text \<open>\<^verbatim>\<open>Asm::MarkLabelLocal\<close>.\<close>

definition MarkLabelLocal :: "string \<Rightarrow> Asm \<Rightarrow> Asm" where
  "MarkLabelLocal label st = st\<lparr>localLabels := localLabels st @ [label]\<rparr>"

text \<open>
  \<^verbatim>\<open>Asm::FlushLocalLabels\<close>. The inner loop is
  \<^verbatim>\<open>while (index<labels.count()) { if (i->same_str_case(name at index)) { remove; break; } }\<close>:
  its body changes nothing when the names differ, so it may run forever; not returning is
  \<open>None\<close>.
\<close>

partial_function (option) FlushLocalLabels_scan :: "string \<Rightarrow> label_table \<Rightarrow> nat \<Rightarrow> label_table option" where
  "FlushLocalLabels_scan name tab index =
     (if index < length tab then
        (if same_str_case name (label_name (snd (tab ! index))) then Some (pa_remove index tab)
         else FlushLocalLabels_scan name tab index)
      else Some tab)"

text \<open>The outer loop \<^verbatim>\<open>while (i!=localLabels.end())\<close>, each name erased after its scan.\<close>

fun FlushLocalLabels_loop :: "string list \<Rightarrow> label_table \<Rightarrow> label_table option" where
  "FlushLocalLabels_loop [] tab = Some tab"
| "FlushLocalLabels_loop (name # rest) tab =
     (case FlushLocalLabels_scan name tab (FindLabelIndex (fnv1a name) (getKeys tab)) of
        None \<Rightarrow> None
      | Some tab' \<Rightarrow> FlushLocalLabels_loop rest tab')"

definition FlushLocalLabels :: "Asm \<Rightarrow> Asm option" where
  "FlushLocalLabels st =
     (case FlushLocalLabels_loop (localLabels st) (labels st) of
        None \<Rightarrow> None
      | Some tab' \<Rightarrow> Some (st\<lparr>labels := tab', localLabels := []\<rparr>))"

subsection \<open>Late evaluation\<close>

text \<open>
  \<^verbatim>\<open>Asm::CheckLateEval\<close>. An entry is retried when its expression contains one of the new
  label names (\<^verbatim>\<open>strref::find\<close>, case ignored), or when a scope end is given and the
  expression holds a \<^verbatim>\<open>%\<close> that is not doubled, or when 16 names have been collected.
\<close>

lemma int_find_char_bounds: "int_find_char c s = p \<Longrightarrow> p \<ge> 0 \<Longrightarrow> p < int (length s)"
  by (induction s arbitrary: p) (auto simp: Let_def split: if_splits)

lemma find_at_bounds:
  "find_at s c pos = p \<Longrightarrow> p \<ge> 0 \<Longrightarrow> int pos \<le> p \<and> p < int (length s)"
  using int_find_char_bounds[of c "drop pos s"]
  by (auto simp: find_at_def Let_def split: if_splits)

text \<open>The scan for a single \<^verbatim>\<open>%\<close>, \<^verbatim>\<open>while (gt_pos>=0 && !check)\<close>.\<close>

function scope_end_referenced :: "string \<Rightarrow> nat \<Rightarrow> bool" where
  "scope_end_referenced expr gt_pos =
     (let p = find_at expr CHR ''%'' gt_pos in
      if p \<ge> 0 then
        (if char_at expr (nat p + 1) = CHR ''%'' then scope_end_referenced expr (nat p + 2)
         else True)
      else False)"
  by pat_completeness auto
termination
proof (relation "measure (\<lambda>(expr, gt_pos). length expr + 1 - gt_pos)", goal_cases)
  case 1
  then show ?case by simp
next
  case (2 expr gt_pos p)
  from find_at_bounds[OF 2(1)[symmetric] 2(2)] show ?case by auto
qed

declare scope_end_referenced.simps [simp del]

definition late_eval_check :: "string list \<Rightarrow> u32 \<Rightarrow> string \<Rightarrow> bool" where
  "late_eval_check new_labels scope_end expr =
     (let check = (length new_labels = MAX_LABELS_EVAL_ALL);
          check = (check \<or> list_ex (\<lambda>l. find_str expr l \<ge> 0) new_labels)
      in if \<not> check \<and> 0 <s scope_end then scope_end_referenced expr 0 else check)"

text \<open>\<^verbatim>\<open>vector::erase\<close> at an index, and a byte stored through a target pointer (a store
  outside the bytes written has no defined result).\<close>

definition erase :: "nat \<Rightarrow> 'a list \<Rightarrow> 'a list" where
  "erase i xs = take i xs @ drop (i + 1) xs"

definition store_byte :: "nat \<Rightarrow> u8 \<Rightarrow> Asm \<Rightarrow> Asm option" where
  "store_byte target b st =
     (if target < length (output st) then Some (st\<lparr>output := (output st)[target := b]\<rparr>)
      else None)"

text \<open>
  The \<^verbatim>\<open>switch (i->type)\<close> on a value that evaluated: the function returns early with a
  status (\<open>Early\<close>), or the entry is resolved, with the state, the list of new label
  names and the flag \<open>evaluated_label\<close> after it.
\<close>

datatype late_eval_step = Early StatusCode Asm | Resolved Asm "string list" bool

definition late_eval_apply ::
  "LateEval \<Rightarrow> u32 \<Rightarrow> string list \<Rightarrow> bool \<Rightarrow> Asm \<Rightarrow> late_eval_step option" where
  "late_eval_apply le v new_labels evaluated_label st =
     (case le_type le of
        LET_BRANCH \<Rightarrow>
          (let v' = v - le_address le in
           if v' <s - 128 \<or> 127 <s v' then Some (Early ERROR_BRANCH_OUT_OF_RANGE st)
           else (case store_byte (le_target le) (ucast v') st of
                   None \<Rightarrow> None
                 | Some st' \<Rightarrow> Some (Resolved st' new_labels evaluated_label)))
      | LET_BYTE \<Rightarrow>
          (case store_byte (le_target le) (ucast (v AND 0xff)) st of
             None \<Rightarrow> None
           | Some st' \<Rightarrow> Some (Resolved st' new_labels evaluated_label))
      | LET_ABS_REF \<Rightarrow>
          (case store_byte (le_target le) (ucast (v AND 0xff)) st of
             None \<Rightarrow> None
           | Some st' \<Rightarrow>
               (case store_byte (le_target le + 1) (ucast (signed_drop_bit 8 v AND 0xff)) st' of
                  None \<Rightarrow> None
                | Some st'' \<Rightarrow> Some (Resolved st'' new_labels evaluated_label)))
      | LET_LABEL \<Rightarrow>
          (case GetLabel (labels st) (le_label le) of
             None \<Rightarrow> Some (Early ERROR_LABEL_MISPLACED_INTERNAL st)
           | Some k \<Rightarrow>
               (let (key, label) = labels st ! k;
                    label' = label\<lparr>label_value := v, label_evaluated := True\<rparr>;
                    st' = st\<lparr>labels := (labels st)[k := (key, label')]\<rparr>;
                    new_labels' = (if length new_labels < MAX_LABELS_EVAL_ALL
                                   then new_labels @ [label_name label'] else new_labels)
                in Some (Resolved st' new_labels' True))))"

lemma store_byte_lateEval: "store_byte t b st = Some st' \<Longrightarrow> lateEval st' = lateEval st"
  by (auto simp: store_byte_def split: if_splits)

lemma late_eval_apply_lateEval:
  "late_eval_apply le v nl ev st = Some (Resolved st' nl' ev') \<Longrightarrow> lateEval st' = lateEval st"
  unfolding late_eval_apply_def Let_def
  by (auto split: LateEvalType.splits if_splits option.splits prod.splits
      dest!: store_byte_lateEval)

text \<open>
  One run of the inner loop \<^verbatim>\<open>while (i != lateEval.end())\<close>, from the position \<open>i\<close> of the
  iterator: \<open>Inl\<close> is a return from inside the loop, \<open>Inr\<close> the state, the position of the
  iterator, the new label names and the flag when the loop is left.
\<close>

function CheckLateEval_pass ::
  "u32 \<Rightarrow> Asm \<Rightarrow> nat \<Rightarrow> string list \<Rightarrow> bool
     \<Rightarrow> (StatusCode \<times> Asm + Asm \<times> nat \<times> string list \<times> bool) option" where
  "CheckLateEval_pass scope_end st i new_labels evaluated_label =
     (if i < length (lateEval st) then
        (let le = lateEval st ! i in
         if late_eval_check new_labels scope_end (le_expression le) then
           (case EvalExpression (labels st) (le_expression le) (le_address le) (le_scope le)
                   scope_end 0 of
              None \<Rightarrow> None
            | Some (ret, v) \<Rightarrow>
                if ret = STATUS_OK then
                  (case late_eval_apply le v new_labels evaluated_label st of
                     None \<Rightarrow> None
                   | Some (Early status st') \<Rightarrow> Some (Inl (status, st'))
                   | Some (Resolved st' new_labels' evaluated_label') \<Rightarrow>
                       CheckLateEval_pass scope_end (st'\<lparr>lateEval := erase i (lateEval st')\<rparr>) i
                         new_labels' evaluated_label')
                else CheckLateEval_pass scope_end st (i + 1) new_labels evaluated_label)
         else CheckLateEval_pass scope_end st (i + 1) new_labels evaluated_label)
      else Some (Inr (st, i, new_labels, evaluated_label)))"
  by pat_completeness auto
termination
proof (relation "measure (\<lambda>(scope_end, st, i, new_labels, evaluated_label). length (lateEval st) - i)",
       goal_cases)
  case 1
  then show ?case by simp
next
  case (2 scope_end st i new_labels evaluated_label le x2 ret v x2a st' x22 x23)
  then have "lateEval st' = lateEval st" using late_eval_apply_lateEval by metis
  then show ?case using 2(1) by (simp add: erase_def)
next
  case 3
  then show ?case by simp
next
  case 4
  then show ?case by simp
qed

declare CheckLateEval_pass.simps [simp del]

lemma CheckLateEval_pass_at_end:
  "\<not> i < length (lateEval st) \<Longrightarrow>
     CheckLateEval_pass scope_end st i new_labels ev = Some (Inr (st, i, new_labels, ev))"
  by (simp add: CheckLateEval_pass.simps)

lemma CheckLateEval_pass_ends:
  "CheckLateEval_pass scope_end st i new_labels ev = Some (Inr (st', i', new_labels', ev')) \<Longrightarrow>
     \<not> i' < length (lateEval st')"
proof (induction scope_end st i new_labels ev rule: CheckLateEval_pass.induct)
  case (1 scope_end st i new_labels evaluated_label)
  show ?case
  proof (cases "i < length (lateEval st)")
    case False
    then show ?thesis using "1.prems" by (simp add: CheckLateEval_pass.simps)
  next
    case True
    define le where "le = lateEval st ! i"
    show ?thesis
    proof (cases "late_eval_check new_labels scope_end (le_expression le)")
      case False
      then have "CheckLateEval_pass scope_end st (i + 1) new_labels evaluated_label
                   = Some (Inr (st', i', new_labels', ev'))"
        using "1.prems" True le_def by (simp add: CheckLateEval_pass.simps)
      then show ?thesis using "1.IH"(3)[OF True le_def False] by simp
    next
      case chk: True
      show ?thesis
      proof (cases "EvalExpression (labels st) (le_expression le) (le_address le) (le_scope le) scope_end 0")
        case None
        then show ?thesis using "1.prems" True le_def chk by (simp add: CheckLateEval_pass.simps)
      next
        case (Some rv)
        obtain ret v where rv: "rv = (ret, v)" by (cases rv)
        show ?thesis
        proof (cases "ret = STATUS_OK")
          case False
          then have "CheckLateEval_pass scope_end st (i + 1) new_labels evaluated_label
                   = Some (Inr (st', i', new_labels', ev'))"
            using "1.prems" True le_def chk Some rv by (simp add: CheckLateEval_pass.simps)
          then show ?thesis using "1.IH"(2)[OF True le_def chk Some rv[symmetric] False] by simp
        next
          case ok: True
          show ?thesis
          proof (cases "late_eval_apply le v new_labels evaluated_label st")
            case None
            then show ?thesis using "1.prems" True le_def chk Some rv ok
              by (simp add: CheckLateEval_pass.simps)
          next
            case (Some step)
            show ?thesis
            proof (cases step)
              case (Early x1 x2)
              then show ?thesis
                using "1.prems" True le_def chk \<open>EvalExpression _ _ _ _ _ _ = Some rv\<close> rv ok Some
                by (simp add: CheckLateEval_pass.simps)
            next
              case (Resolved st1 nl1 ev1)
              then have "CheckLateEval_pass scope_end (st1\<lparr>lateEval := erase i (lateEval st1)\<rparr>) i nl1 ev1
                   = Some (Inr (st', i', new_labels', ev'))"
                using "1.prems" True le_def chk \<open>EvalExpression _ _ _ _ _ _ = Some rv\<close> rv ok Some
                by (simp add: CheckLateEval_pass.simps)
              then show ?thesis
                using "1.IH"(1)[OF True le_def chk \<open>EvalExpression _ _ _ _ _ _ = Some rv\<close>
                    rv[symmetric] ok Some Resolved] by simp
            qed
          qed
        qed
      qed
    qed
  qed
qed

text \<open>
  The outer loop \<^verbatim>\<open>while (evaluated_label)\<close>. The iterator \<open>i\<close> is initialised once, before
  this loop, and is not reset between its rounds.
\<close>

function CheckLateEval_outer ::
  "u32 \<Rightarrow> Asm \<Rightarrow> nat \<Rightarrow> string list \<Rightarrow> bool \<Rightarrow> (StatusCode \<times> Asm) option" where
  "CheckLateEval_outer scope_end st i new_labels evaluated_label =
     (if evaluated_label then
        (case CheckLateEval_pass scope_end st i new_labels False of
           None \<Rightarrow> None
         | Some (Inl r) \<Rightarrow> Some r
         | Some (Inr (st', i', new_labels', evaluated_label')) \<Rightarrow>
             CheckLateEval_outer scope_end st' i' new_labels' evaluated_label')
      else Some (STATUS_OK, st))"
  by pat_completeness auto
termination
proof (relation "measure (\<lambda>(scope_end, st, i, new_labels, evaluated_label).
          2 * (length (lateEval st) - i) + (if evaluated_label then 1 else 0))", goal_cases)
  case 1
  then show ?case by simp
next
  case (2 scope_end st i new_labels evaluated_label x2 x2a st' y i' ya new_labels' ev')
  have res: "CheckLateEval_pass scope_end st i new_labels False = Some (Inr (st', i', new_labels', ev'))"
    using 2 by simp
  have e: "\<not> i' < length (lateEval st')" using res by (rule CheckLateEval_pass_ends)
  show ?case
  proof (cases "i < length (lateEval st)")
    case True
    then show ?thesis using e 2(1) by simp
  next
    case False
    then have "ev' = False" using res CheckLateEval_pass_at_end[OF False] by simp
    then show ?thesis using e 2(1) by simp
  qed
qed

declare CheckLateEval_outer.simps [simp del]

definition CheckLateEval :: "string \<Rightarrow> u32 \<Rightarrow> Asm \<Rightarrow> (StatusCode \<times> Asm) option" where
  "CheckLateEval added_label scope_end st =
     CheckLateEval_outer scope_end st 0 (if added_label \<noteq> [] then [added_label] else []) True"

subsection \<open>Defining labels (\<^verbatim>\<open>Asm::BuildSegment\<close>)\<close>

text \<open>
  The branch of \<^verbatim>\<open>BuildSegment\<close> for \<^verbatim>\<open>label = expression\<close>; \<open>line\<close> is the text after the
  \<^verbatim>\<open>=\<close>, trimmed. The result is the value of \<^verbatim>\<open>error\<close> after the branch, whether the branch
  left the loop over the line with \<^verbatim>\<open>break\<close>, and the state.
\<close>

definition is_local_label :: "string \<Rightarrow> bool" where
  "is_local_label label =
     (char_at label 0 = CHR ''.'' \<or> char_at label 0 = CHR ''@'' \<or> char_at label 0 = CHR ''!'' \<or>
      get_last label = CHR ''$'')"

definition BuildSegment_assign ::
  "string \<Rightarrow> string \<Rightarrow> StatusCode \<Rightarrow> Asm \<Rightarrow> (StatusCode \<times> bool \<times> Asm) option" where
  "BuildSegment_assign label line error st =
     (case scope_pc_of st of
        None \<Rightarrow> None
      | Some scope_pc \<Rightarrow>
          (case EvalExpression (labels st) line (address st) scope_pc (- 1) 0 of
             None \<Rightarrow> None
           | Some (status, val) \<Rightarrow>
               if status \<noteq> STATUS_NOT_READY \<and> status \<noteq> STATUS_OK then Some (status, True, st)
               else
                 (let (index, tab) = AddLabel (fnv1a label) (labels st);
                      pLabel = \<lparr>label_name = label, label_expression = line, label_value = val,
                                label_evaluated = (status = STATUS_OK),
                                label_zero_page = (status = STATUS_OK \<and> val <s 0x100),
                                label_pc_relative = False\<rparr>;
                      st1 = st\<lparr>labels := tab[index := (fnv1a label, pLabel)]\<rparr>
                  in if \<not> label_evaluated pLabel
                     then Some (error, False,
                                AddLateEval_label label (address st) scope_pc line LET_LABEL st1)
                     else (case CheckLateEval label (- 1) st1 of
                             None \<Rightarrow> None
                           | Some (error', st2) \<Rightarrow> Some (error', False, st2)))))"

text \<open>
  The branch of \<^verbatim>\<open>BuildSegment\<close> for a label at the current address (\<^verbatim>\<open>if (!gotMacro)\<close>):
  the label is added, then marked local or the local labels are flushed, then the late
  evaluations are checked.
\<close>

definition BuildSegment_label :: "string \<Rightarrow> Asm \<Rightarrow> (StatusCode \<times> Asm) option" where
  "BuildSegment_label label st =
     (let (index, tab) = AddLabel (fnv1a label) (labels st);
          pLabel = \<lparr>label_name = label, label_expression = [], label_value = address st,
                    label_evaluated = True, label_zero_page = False, label_pc_relative = True\<rparr>;
          st1 = st\<lparr>labels := tab[index := (fnv1a label, pLabel)]\<rparr>
      in case (if is_local_label label then Some (MarkLabelLocal label st1)
               else FlushLocalLabels st1) of
           None \<Rightarrow> None
         | Some st2 \<Rightarrow> CheckLateEval label (- 1) st2)"

text \<open>\<^verbatim>\<open>ContextStack::push\<close>.\<close>

definition context_push :: "string \<Rightarrow> string \<Rightarrow> string \<Rightarrow> Asm \<Rightarrow> Asm" where
  "context_push src_name src_file code_seg st =
     st\<lparr>contextStack := \<lparr>source_name = src_name, source_file = src_file,
                          code_segment = code_seg, read_source = code_seg\<rparr> # contextStack st\<rparr>"

text \<open>
  \<^verbatim>\<open>Asm::BuildMacro\<close>. For a macro with parameters the expanded text (the buffer from
  \<^verbatim>\<open>malloc\<close>, the copy of the macro and the replacement of each parameter by its argument)
  is the parameter \<open>expansion\<close> of the model, \<open>None\<close> when the allocation fails.
\<close>

definition BuildMacro :: "Macro \<Rightarrow> string \<Rightarrow> string option \<Rightarrow> Asm \<Rightarrow> (StatusCode \<times> Asm) option" where
  "BuildMacro m arg_list expansion st =
     (let macro_src = macro_text m;
          (params, macro_src1) = (if char_at macro_src 0 = CHR ''('' then scoped_block_skip macro_src
                                  else ([], macro_src));
          params' = trim_whitespace params;
          macro_src2 = skip_whitespace macro_src1
      in if params' \<noteq> [] then
           (case expansion of
              Some macexp \<Rightarrow>
                (case FlushLocalLabels (context_push (macro_source_name m) macexp macexp st) of
                   None \<Rightarrow> None
                 | Some st' \<Rightarrow> Some (STATUS_OK, st'))
            | None \<Rightarrow> Some (ERROR_OUT_OF_MEMORY_FOR_MACRO_EXPANSION, st))
         else
           (case FlushLocalLabels
                   (context_push (macro_source_name m) (macro_source_file m) macro_src2 st) of
              None \<Rightarrow> None
            | Some st' \<Rightarrow> Some (STATUS_OK, st')))"

text \<open>The state of \<^verbatim>\<open>Asm()\<close> when \<^verbatim>\<open>Assemble\<close> has set \<^verbatim>\<open>scope_address[0]\<close>; the other
  entries of \<^verbatim>\<open>scope_address\<close> are not initialised and stand as 0 here.\<close>

definition Asm_init :: Asm where
  "Asm_init = \<lparr>labels = [], macros = [], lateEval = [], localLabels = [], contextStack = [],
                output = [], address = 0x1000, load_address = 0x1000,
                scope_address = 0x1000 # replicate 31 0, scope_depth = 0,
                set_load_address = False, diagnostics = []\<rparr>"

subsection \<open>Facts about the flush of the local labels\<close>

lemma same_str_case_iff: "same_str_case s t \<longleftrightarrow> s = t"
proof -
  have "length s = length t \<Longrightarrow> int_compare_substr_case s t \<longleftrightarrow> s = t"
    by (induction s t rule: int_compare_substr_case.induct) auto
  then show ?thesis by (auto simp: same_str_case_def)
qed

lemma FlushLocalLabels_scan_match:
  "index < length tab \<Longrightarrow> label_name (snd (tab ! index)) = name \<Longrightarrow>
     FlushLocalLabels_scan name tab index = Some (pa_remove index tab)"
  by (subst FlushLocalLabels_scan.simps) (simp add: same_str_case_iff)

lemma FlushLocalLabels_scan_end:
  "\<not> index < length tab \<Longrightarrow> FlushLocalLabels_scan name tab index = Some tab"
  by (subst FlushLocalLabels_scan.simps) simp

lemma FlushLocalLabels_scan_Some:
  assumes "FlushLocalLabels_scan name tab index = Some tab'"
  shows "(index < length tab \<and> label_name (snd (tab ! index)) = name \<and> tab' = pa_remove index tab) \<or>
     (\<not> index < length tab \<and> tab' = tab)"
  by (rule FlushLocalLabels_scan.raw_induct[where P = "\<lambda>name tab index tab'.
        (index < length tab \<and> label_name (snd (tab ! index)) = name \<and> tab' = pa_remove index tab) \<or>
        (\<not> index < length tab \<and> tab' = tab)", OF _ assms])
     (auto simp: same_str_case_iff split: if_splits)

lemma FlushLocalLabels_scan_stuck:
  "index < length tab \<Longrightarrow> label_name (snd (tab ! index)) \<noteq> name \<Longrightarrow>
     FlushLocalLabels_scan name tab index = None"
  using FlushLocalLabels_scan_Some[of name tab index] by (cases "FlushLocalLabels_scan name tab index") auto

text \<open>
  Two local labels of one hash: \<^verbatim>\<open>liquid$\<close> and \<^verbatim>\<open>costarring$\<close> (both end in \<^verbatim>\<open>$\<close>; FNV-1a
  gives both 759415099). \<open>local_collision_1\<close> and \<open>local_collision_2\<close> are the states after
  the first and after both have been defined as labels at the current address, from the
  initial state.
\<close>

definition local_collision_1 :: Asm where
  "local_collision_1 = Asm_init\<lparr>
     labels := [(759415099, \<lparr>label_name = ''liquid$'', label_expression = [], label_value = 0x1000,
                 label_evaluated = True, label_zero_page = False, label_pc_relative = True\<rparr>)],
     localLabels := [''liquid$'']\<rparr>"

definition local_collision_2 :: Asm where
  "local_collision_2 = Asm_init\<lparr>
     labels := [(759415099, \<lparr>label_name = ''costarring$'', label_expression = [], label_value = 0x1000,
                 label_evaluated = True, label_zero_page = False, label_pc_relative = True\<rparr>),
                (759415099, \<lparr>label_name = ''liquid$'', label_expression = [], label_value = 0x1000,
                 label_evaluated = True, label_zero_page = False, label_pc_relative = True\<rparr>)],
     localLabels := [''liquid$'', ''costarring$'']\<rparr>"

lemma fnv1a_liquid: "fnv1a ''liquid$'' = 759415099" by (simp add: fnv1a_def)
lemma fnv1a_costarring: "fnv1a ''costarring$'' = 759415099" by (simp add: fnv1a_def)

lemma CheckLateEval_empty:
  "lateEval st = [] \<Longrightarrow> CheckLateEval added scope_end st = Some (STATUS_OK, st)"
  by (simp add: CheckLateEval_def CheckLateEval_outer.simps CheckLateEval_pass.simps)

lemmas label_simps = BuildSegment_label_def AddLabel_def FindLabelIndex_def FindLabelIndex_loop.simps
  getKeys_def pa_insert_def zero_Label_def is_local_label_def char_at_def get_last_def MarkLabelLocal_def
  Asm_init_def CheckLateEval_empty Let_def

lemma local_collision_first: "BuildSegment_label ''liquid$'' Asm_init = Some (STATUS_OK, local_collision_1)"
  by (simp add: label_simps fnv1a_liquid local_collision_1_def)

lemma local_collision_second: "BuildSegment_label ''costarring$'' local_collision_1 = Some (STATUS_OK, local_collision_2)"
  by (simp add: label_simps fnv1a_liquid fnv1a_costarring local_collision_1_def local_collision_2_def)

lemma local_collision_flush: "FlushLocalLabels local_collision_2 = None"
proof -
  have "FindLabelIndex (fnv1a ''liquid$'') (getKeys (labels local_collision_2)) = 0"
    by (simp add: fnv1a_liquid local_collision_2_def label_simps)
  moreover have "FlushLocalLabels_scan ''liquid$'' (labels local_collision_2) 0 = None"
    by (rule FlushLocalLabels_scan_stuck) (simp_all add: local_collision_2_def Asm_init_def)
  ultimately show ?thesis
    by (simp add: FlushLocalLabels_def local_collision_2_def Asm_init_def)
qed

lemma local_collision_next_label: "BuildSegment_label ''start'' local_collision_2 = None"
proof -
  define tab where "tab = (let (index, tab) = AddLabel (fnv1a ''start'') (labels local_collision_2)
     in tab[index := (fnv1a ''start'', \<lparr>label_name = ''start'', label_expression = [], label_value = address local_collision_2,
                    label_evaluated = True, label_zero_page = False, label_pc_relative = True\<rparr>)])"
  have i: "FindLabelIndex (fnv1a ''liquid$'') (getKeys tab) = 0"
    by (simp add: tab_def fnv1a_liquid local_collision_2_def label_simps fnv1a_def)
  have n: "label_name (snd (tab ! 0)) = ''costarring$''" "0 < length tab"
    by (simp_all add: tab_def fnv1a_liquid local_collision_2_def label_simps fnv1a_def)
  have "FlushLocalLabels_scan ''liquid$'' tab 0 = None"
    using n by (intro FlushLocalLabels_scan_stuck) auto
  then have "FlushLocalLabels_loop (localLabels local_collision_2) tab = None"
    using i by (simp add: local_collision_2_def Asm_init_def)
  then show ?thesis
    unfolding BuildSegment_label_def tab_def
    by (simp add: FlushLocalLabels_def is_local_label_def char_at_def get_last_def split: prod.splits)
qed

subsection \<open>A chain of forward references\<close>

text \<open>
  The source lines \<^verbatim>\<open>a = b+1\<close>, \<^verbatim>\<open>b = c+1\<close>, \<^verbatim>\<open>c = 5\<close>. \<open>late_chain_1\<close>, \<open>late_chain_2\<close> and
  \<open>late_chain_3\<close> are the states after each line, from the initial state; \<open>late_chain_4\<close>
  is the state after one more call of \<open>CheckLateEval\<close>.
\<close>

definition late_entry :: "string \<Rightarrow> string \<Rightarrow> LateEval" where
  "late_entry label expr = \<lparr>le_target = 0, le_address = 0x1000, le_scope = 0x1000, le_label = label,
      le_expression = expr, le_source_file = [], le_type = LET_LABEL\<rparr>"

definition assigned :: "string \<Rightarrow> string \<Rightarrow> u32 \<Rightarrow> bool \<Rightarrow> u32 \<times> Label" where
  "assigned label expr v ev = (fnv1a label,
      \<lparr>label_name = label, label_expression = expr, label_value = v, label_evaluated = ev,
       label_zero_page = (ev \<and> v <s 0x100), label_pc_relative = False\<rparr>)"

definition late_chain_1 :: Asm where
  "late_chain_1 = Asm_init\<lparr>labels := [assigned ''a'' ''b+1'' 0 False],
                            lateEval := [late_entry ''a'' ''b+1'']\<rparr>"

definition late_chain_2 :: Asm where
  "late_chain_2 = Asm_init\<lparr>labels := [assigned ''a'' ''b+1'' 0 False, assigned ''b'' ''c+1'' 0 False],
                            lateEval := [late_entry ''a'' ''b+1'', late_entry ''b'' ''c+1'']\<rparr>"

definition late_chain_3 :: Asm where
  "late_chain_3 = Asm_init\<lparr>labels := [assigned ''a'' ''b+1'' 0 False, assigned ''c'' ''5'' 5 True,
                                       (fnv1a ''b'', snd (assigned ''b'' ''c+1'' 6 True)\<lparr>label_zero_page := False\<rparr>)],
                            lateEval := [late_entry ''a'' ''b+1'']\<rparr>"

definition late_chain_4 :: Asm where
  "late_chain_4 = Asm_init\<lparr>labels := [(fnv1a ''a'', snd (assigned ''a'' ''b+1'' 7 True)\<lparr>label_zero_page := False\<rparr>),
                                       assigned ''c'' ''5'' 5 True,
                                       (fnv1a ''b'', snd (assigned ''b'' ''c+1'' 6 True)\<lparr>label_zero_page := False\<rparr>)],
                            lateEval := []\<rparr>"

lemma late_chain_first: "BuildSegment_assign ''a'' ''b+1'' STATUS_OK Asm_init = Some (STATUS_OK, False, late_chain_1)"
  by code_simp
lemma late_chain_second: "BuildSegment_assign ''b'' ''c+1'' STATUS_OK late_chain_1 = Some (STATUS_OK, False, late_chain_2)"
  by code_simp
lemma late_chain_third: "BuildSegment_assign ''c'' ''5'' STATUS_OK late_chain_2 = Some (STATUS_OK, False, late_chain_3)"
  by code_simp
lemma late_chain_again: "CheckLateEval ''b'' (- 1) late_chain_3 = Some (STATUS_OK, late_chain_4)"
  by code_simp

subsection \<open>Facts about the symbol table and the tracked local labels\<close>

text \<open>
  \<open>same_names st st'\<close>: the two states hold the same hashes in the symbol table, in the same
  order, and the same list of tracked local labels. \<^verbatim>\<open>CheckLateEval\<close> changes the entry of a
  label (its value and flags) but neither adds nor removes one.
\<close>

definition same_names :: "Asm \<Rightarrow> Asm \<Rightarrow> bool" where
  "same_names st st' = (getKeys (labels st') = getKeys (labels st) \<and> localLabels st' = localLabels st)"

lemma same_names_refl: "same_names st st" by (simp add: same_names_def)

lemma same_names_trans: "same_names a b \<Longrightarrow> same_names b c \<Longrightarrow> same_names a c"
  by (simp add: same_names_def)

lemma store_byte_same_names: "store_byte t b st = Some st' \<Longrightarrow> same_names st st'"
  by (auto simp: store_byte_def same_names_def split: if_splits)

lemma map_fst_update_same:
  assumes "xs ! k = (a, b)"
  shows "(map fst xs)[k := a] = map fst xs"
proof (cases "k < length xs")
  case True
  then have "map fst xs ! k = a" using assms by simp
  then show ?thesis by (metis list_update_id)
next
  case False
  then have "length (map fst xs) \<le> k" by simp
  then show ?thesis by (rule list_update_beyond)
qed

lemma late_eval_apply_same_names:
  "late_eval_apply le v nl ev st = Some (Resolved st' nl' ev') \<Longrightarrow> same_names st st'"
  "late_eval_apply le v nl ev st = Some (Early status st') \<Longrightarrow> same_names st st'"
  unfolding late_eval_apply_def Let_def
  by (auto split: LateEvalType.splits if_splits option.splits prod.splits
      dest!: store_byte_same_names simp: same_names_def getKeys_def map_update map_fst_update_same)

lemma CheckLateEval_pass_same_names:
  "CheckLateEval_pass scope_end st i new_labels ev = Some r \<Longrightarrow>
     (case r of Inl (status, st') \<Rightarrow> same_names st st' | Inr (st', i', nl', ev') \<Rightarrow> same_names st st')"
proof (induction scope_end st i new_labels ev rule: CheckLateEval_pass.induct)
  case (1 scope_end st i new_labels evaluated_label)
  show ?case
  proof (cases "i < length (lateEval st)")
    case False
    then show ?thesis using "1.prems" by (auto simp: CheckLateEval_pass.simps same_names_refl)
  next
    case True
    define le where "le = lateEval st ! i"
    show ?thesis
    proof (cases "late_eval_check new_labels scope_end (le_expression le)")
      case False
      then have "CheckLateEval_pass scope_end st (i + 1) new_labels evaluated_label = Some r"
        using "1.prems" True le_def by (simp add: CheckLateEval_pass.simps)
      then show ?thesis using "1.IH"(3)[OF True le_def False] by simp
    next
      case chk: True
      show ?thesis
      proof (cases "EvalExpression (labels st) (le_expression le) (le_address le) (le_scope le) scope_end 0")
        case None
        then show ?thesis using "1.prems" True le_def chk by (simp add: CheckLateEval_pass.simps)
      next
        case (Some rv)
        obtain ret v where rv: "rv = (ret, v)" by (cases rv)
        show ?thesis
        proof (cases "ret = STATUS_OK")
          case False
          then have "CheckLateEval_pass scope_end st (i + 1) new_labels evaluated_label = Some r"
            using "1.prems" True le_def chk Some rv by (simp add: CheckLateEval_pass.simps)
          then show ?thesis using "1.IH"(2)[OF True le_def chk Some rv[symmetric] False] by simp
        next
          case ok: True
          show ?thesis
          proof (cases "late_eval_apply le v new_labels evaluated_label st")
            case None
            then show ?thesis using "1.prems" True le_def chk Some rv ok
              by (simp add: CheckLateEval_pass.simps)
          next
            case (Some step)
            show ?thesis
            proof (cases step)
              case (Early x1 x2)
              then have "r = Inl (x1, x2)"
                using "1.prems" True le_def chk \<open>EvalExpression _ _ _ _ _ _ = Some rv\<close> rv ok Some
                by (simp add: CheckLateEval_pass.simps)
              then show ?thesis using late_eval_apply_same_names(2)[of le v new_labels evaluated_label st x1 x2]
                  Some Early by simp
            next
              case (Resolved st1 nl1 ev1)
              let ?st2 = "st1\<lparr>lateEval := erase i (lateEval st1)\<rparr>"
              have a: "same_names st ?st2"
                using late_eval_apply_same_names(1)[of le v new_labels evaluated_label st st1 nl1 ev1]
                  Some Resolved by (simp add: same_names_def)
              have "CheckLateEval_pass scope_end ?st2 i nl1 ev1 = Some r"
                using "1.prems" True le_def chk \<open>EvalExpression _ _ _ _ _ _ = Some rv\<close> rv ok Some Resolved
                by (simp add: CheckLateEval_pass.simps)
              then have "case r of Inl (status, st') \<Rightarrow> same_names ?st2 st'
                                 | Inr (st', i', nl', ev') \<Rightarrow> same_names ?st2 st'"
                using "1.IH"(1)[OF True le_def chk \<open>EvalExpression _ _ _ _ _ _ = Some rv\<close>
                    rv[symmetric] ok Some Resolved] by simp
              then show ?thesis using a
                by (auto split: sum.splits prod.splits intro: same_names_trans)
            qed
          qed
        qed
      qed
    qed
  qed
qed

lemma CheckLateEval_outer_same_names:
  "CheckLateEval_outer scope_end st i new_labels ev = Some (status, st') \<Longrightarrow> same_names st st'"
proof (induction scope_end st i new_labels ev rule: CheckLateEval_outer.induct)
  case (1 scope_end st i new_labels evaluated_label)
  show ?case
  proof (cases evaluated_label)
    case False
    then show ?thesis using "1.prems" by (simp add: CheckLateEval_outer.simps same_names_refl)
  next
    case True
    show ?thesis
    proof (cases "CheckLateEval_pass scope_end st i new_labels False")
      case None
      then show ?thesis using "1.prems" True by (simp add: CheckLateEval_outer.simps)
    next
      case (Some r)
      note sn = CheckLateEval_pass_same_names[OF Some]
      show ?thesis
      proof (cases r)
        case (Inl a)
        then show ?thesis using "1.prems" True Some sn
          by (auto simp: CheckLateEval_outer.simps)
      next
        case (Inr b)
        obtain st1 i1 nl1 ev1 where b: "b = (st1, i1, nl1, ev1)" by (cases b)
        have "CheckLateEval_outer scope_end st1 i1 nl1 ev1 = Some (status, st')"
          using "1.prems" True Some Inr b by (simp add: CheckLateEval_outer.simps)
        then have "same_names st1 st'"
          using "1.IH"[OF True Some Inr b[symmetric] refl refl] by simp
        moreover have "same_names st st1" using sn Inr b by simp
        ultimately show ?thesis by (rule same_names_trans[rotated])
      qed
    qed
  qed
qed

lemma CheckLateEval_same_names:
  "CheckLateEval added scope_end st = Some (status, st') \<Longrightarrow> same_names st st'"
  unfolding CheckLateEval_def by (rule CheckLateEval_outer_same_names)

text \<open>
  \<open>locals_tracked names tab\<close>: the table is sorted by hash; every entry under the hash of a
  tracked local label carries that label's name; and each tracked name has as many entries as
  it is tracked times. This is the state that \<^verbatim>\<open>AddLabel\<close> followed by \<^verbatim>\<open>MarkLabelLocal\<close>
  leaves when no two names in play share a hash and no local name is also defined by an
  assignment.
\<close>

definition locals_tracked :: "string list \<Rightarrow> label_table \<Rightarrow> bool" where
  "locals_tracked names tab =
     (sorted (getKeys tab) \<and>
      list_all (\<lambda>n. list_all (\<lambda>e. fst e = fnv1a n \<longrightarrow> label_name (snd e) = n) tab \<and>
                    length (filter (\<lambda>e. fst e = fnv1a n) tab) = count_list names n) names)"

lemma pa_remove_keys:
  "index < length tab \<Longrightarrow> getKeys (pa_remove index tab) = take index (getKeys tab) @ drop (index + 1) (getKeys tab)"
  by (simp add: pa_remove_def getKeys_def take_map drop_map)

lemma GetLabel_absent_hash: "fnv1a name \<notin> set (getKeys tab) \<Longrightarrow> GetLabel tab name = None"
proof -
  assume a: "fnv1a name \<notin> set (getKeys tab)"
  have "\<And>i. i < length tab \<Longrightarrow> fnv1a name \<noteq> fst (tab ! i)"
    using a by (auto simp: getKeys_def)
  then show ?thesis
    by (auto simp: GetLabel_def Let_def GetLabel_scan.simps)
qed

lemma FindLabelIndex_present:
  assumes "sorted table" "hash \<in> set table"
  shows "FindLabelIndex hash table < length table \<and> table ! FindLabelIndex hash table = hash"
proof -
  let ?r = "FindLabelIndex hash table"
  have lb: "lower_bound hash table ?r" using assms(1) by (rule FindLabelIndex_lower_bound)
  from assms(2) obtain k where k: "k < length table" "table ! k = hash"
    by (auto simp: in_set_conv_nth)
  have "\<not> k < ?r" using lower_bound_nth(1)[OF lb, of k] k by auto
  then have rk: "?r \<le> k" by simp
  then have lt: "?r < length table" using k by simp
  have "hash \<le> table ! ?r" using lower_bound_nth(2)[OF lb, of ?r] lt by simp
  moreover have "table ! ?r \<le> table ! k"
    using assms(1) rk k by (intro sorted_nth_mono) auto
  ultimately show ?thesis using lt k by simp
qed

lemma filter_remove_length:
  assumes "i < length xs"
  shows "length (filter P (pa_remove i xs)) = length (filter P xs) - (if P (xs ! i) then 1 else 0)"
proof -
  have "xs = take i xs @ xs ! i # drop (i + 1) xs" using assms by (simp add: id_take_nth_drop)
  then have "filter P xs = filter P (take i xs) @ filter P [xs ! i] @ filter P (drop (i + 1) xs)"
    by (metis append_Cons append_Nil filter_append)
  then show ?thesis using assms by (simp add: pa_remove_def)
qed

lemma pa_remove_subset: "set (pa_remove i xs) \<subseteq> set xs"
  by (auto simp: pa_remove_def dest: in_set_takeD in_set_dropD)

lemma pa_remove_sorted:
  assumes "sorted (getKeys tab)"
  shows "sorted (getKeys (pa_remove i tab))"
proof (cases "i < length tab")
  case True
  let ?k = "getKeys tab"
  have len: "i < length ?k" using True by (simp add: getKeys_def)
  have "?k = take i ?k @ (?k ! i) # drop (i + 1) ?k" using len by (simp add: id_take_nth_drop)
  then have "sorted (take i ?k @ (?k ! i) # drop (i + 1) ?k)" using assms by simp
  then have "sorted (take i ?k @ drop (i + 1) ?k)" by (auto simp: sorted_append)
  then show ?thesis using pa_remove_keys[OF True] by simp
next
  case False
  then show ?thesis using assms by (simp add: pa_remove_def)
qed

lemma key_filter_empty:
  "length (filter (\<lambda>e. fst e = h) tab) = 0 \<longleftrightarrow> h \<notin> set (getKeys tab)"
  by (induction tab) (auto simp: getKeys_def)

lemma FlushLocalLabels_loop_total:
  assumes "locals_tracked names tab"
  shows "\<exists>tab'. FlushLocalLabels_loop names tab = Some tab' \<and> sorted (getKeys tab') \<and>
           set tab' \<subseteq> set tab \<and> list_all (\<lambda>n. fnv1a n \<notin> set (getKeys tab')) names"
  using assms
proof (induction names arbitrary: tab)
  case Nil
  then show ?case by (simp add: locals_tracked_def)
next
  case (Cons name rest)
  let ?h = "fnv1a name"
  let ?i = "FindLabelIndex ?h (getKeys tab)"
  have srt: "sorted (getKeys tab)" using Cons.prems by (simp add: locals_tracked_def)
  have own: "\<And>e. e \<in> set tab \<Longrightarrow> fst e = ?h \<Longrightarrow> label_name (snd e) = name"
    using Cons.prems by (simp add: locals_tracked_def list_all_iff)
  have cnt: "length (filter (\<lambda>e. fst e = ?h) tab) = count_list rest name + 1"
    using Cons.prems by (simp add: locals_tracked_def)
  then have "length (filter (\<lambda>e. fst e = ?h) tab) \<noteq> 0" by simp
  then have "?h \<in> set (getKeys tab)" using key_filter_empty[of ?h tab] by blast
  from FindLabelIndex_present[OF srt this]
  have i: "?i < length tab" and "getKeys tab ! ?i = ?h" by (simp_all add: getKeys_def)
  then have ki: "fst (tab ! ?i) = ?h" by (simp add: getKeys_def)
  have "label_name (snd (tab ! ?i)) = name" using own[of "tab ! ?i"] i ki by simp
  then have sc: "FlushLocalLabels_scan name tab ?i = Some (pa_remove ?i tab)"
    using i by (intro FlushLocalLabels_scan_match)
  let ?t1 = "pa_remove ?i tab"
  have sub: "set ?t1 \<subseteq> set tab" by (rule pa_remove_subset)
  have cnt1: "length (filter (\<lambda>e. fst e = ?h) ?t1) = count_list rest name"
    using filter_remove_length[OF i, of "\<lambda>e. fst e = ?h"] ki cnt by simp
  have tr: "locals_tracked rest ?t1"
    unfolding locals_tracked_def list_all_iff
  proof (intro conjI ballI impI)
    show "sorted (getKeys ?t1)" using srt by (rule pa_remove_sorted)
  next
    fix n e assume n: "n \<in> set rest" and e: "e \<in> set ?t1" and k: "fst e = fnv1a n"
    have "list_all (\<lambda>e. fst e = fnv1a n \<longrightarrow> label_name (snd e) = n) tab"
      using Cons.prems n by (simp add: locals_tracked_def list_all_iff)
    then show "label_name (snd e) = n" using e sub k by (auto simp: list_all_iff)
  next
    fix n assume n: "n \<in> set rest"
    have ownn: "\<And>e. e \<in> set tab \<Longrightarrow> fst e = fnv1a n \<Longrightarrow> label_name (snd e) = n"
      using Cons.prems n by (simp add: locals_tracked_def list_all_iff)
    have cntn: "length (filter (\<lambda>e. fst e = fnv1a n) tab) = count_list (name # rest) n"
      using Cons.prems n by (simp add: locals_tracked_def list_all_iff)
    show "length (filter (\<lambda>e. fst e = fnv1a n) ?t1) = count_list rest n"
    proof (cases "fnv1a n = ?h")
      case True
      then have "label_name (snd (tab ! ?i)) = n" using ownn[of "tab ! ?i"] i ki by simp
      then have "n = name" using \<open>label_name (snd (tab ! ?i)) = name\<close> by simp
      then show ?thesis using cnt1 by simp
    next
      case False
      then have "n \<noteq> name" by auto
      then show ?thesis
        using filter_remove_length[OF i, of "\<lambda>e. fst e = fnv1a n"] ki False cntn by simp
    qed
  qed
  from Cons.IH[OF tr] obtain tab' where
    lp: "FlushLocalLabels_loop rest ?t1 = Some tab'" and s': "sorted (getKeys tab')" and
    sub': "set tab' \<subseteq> set ?t1" and ab: "list_all (\<lambda>n. fnv1a n \<notin> set (getKeys tab')) rest"
    by blast
  have "?h \<notin> set (getKeys tab')"
  proof (cases "name \<in> set rest")
    case True
    then show ?thesis using ab by (simp add: list_all_iff)
  next
    case False
    then have "length (filter (\<lambda>e. fst e = ?h) ?t1) = 0" using cnt1 by (simp add: count_list_0_iff)
    then have "?h \<notin> set (getKeys ?t1)" using key_filter_empty[of ?h ?t1] by blast
    then show ?thesis using sub' by (auto simp: getKeys_def)
  qed
  then show ?case using sc lp s' sub' sub ab by auto
qed

text \<open>\<open>flushed names st\<close>: no local label is tracked and a lookup of each of \<open>names\<close> fails.\<close>

definition flushed :: "string list \<Rightarrow> Asm \<Rightarrow> bool" where
  "flushed names st = (localLabels st = [] \<and> list_all (\<lambda>n. GetLabel (labels st) n = None) names)"

lemma AddLabel_entry:
  assumes "sorted (getKeys tab)" "AddLabel hash tab = (index, tab1)"
  shows "tab1[index := (hash, l)] = take index tab @ [(hash, l)] @ drop index tab"
    "sorted (getKeys (tab1[index := (hash, l)]))"
proof -
  let ?k = "getKeys tab"
  have i: "index = FindLabelIndex hash ?k" and t: "tab1 = pa_insert index hash zero_Label tab"
    using assms(2) by (auto simp: AddLabel_def Let_def)
  have lb: "lower_bound hash ?k index" unfolding i using assms(1) by (rule FindLabelIndex_lower_bound)
  then have le: "index \<le> length tab" by (simp add: lower_bound_def getKeys_def)
  show e: "tab1[index := (hash, l)] = take index tab @ [(hash, l)] @ drop index tab"
    unfolding t using le by (simp add: pa_insert_def list_update_append)
  have "getKeys (tab1[index := (hash, l)]) = take index ?k @ [hash] @ drop index ?k"
    unfolding e by (simp add: getKeys_def take_map drop_map)
  then show "sorted (getKeys (tab1[index := (hash, l)]))"
    using lower_bound_insert_sorted[OF assms(1) lb] by simp
qed

lemma AddLabel_locals_tracked:
  assumes "locals_tracked names tab" "AddLabel hash tab = (index, tab1)"
    "list_all (\<lambda>n. fnv1a n \<noteq> hash) names"
  shows "locals_tracked names (tab1[index := (hash, l)])"
proof -
  have srt: "sorted (getKeys tab)" using assms(1) by (simp add: locals_tracked_def)
  note e = AddLabel_entry[OF srt assms(2), of l]
  have f: "filter (\<lambda>e. fst e = fnv1a n) (take index tab @ [(hash, l)] @ drop index tab) =
           filter (\<lambda>e. fst e = fnv1a n) tab" if "n \<in> set names" for n
  proof -
    have "fnv1a n \<noteq> hash" using that assms(3) by (simp add: list_all_iff)
    then have "filter (\<lambda>e. fst e = fnv1a n) (take index tab @ [(hash, l)] @ drop index tab) =
               filter (\<lambda>e. fst e = fnv1a n) (take index tab) @
               filter (\<lambda>e. fst e = fnv1a n) (drop index tab)" by simp
    also have "\<dots> = filter (\<lambda>e. fst e = fnv1a n) (take index tab @ drop index tab)"
      by (simp only: filter_append)
    also have "\<dots> = filter (\<lambda>e. fst e = fnv1a n) tab" by (simp only: append_take_drop_id)
    finally show ?thesis .
  qed
  have own: "label_name (snd x) = n" if "n \<in> set names"
    "x \<in> set (take index tab @ [(hash, l)] @ drop index tab)" "fst x = fnv1a n" for n x
  proof -
    have ne: "fnv1a n \<noteq> hash" using that(1) assms(3) by (simp add: list_all_iff)
    have "x \<in> set (take index tab) \<or> x \<in> set (drop index tab)" using that(2,3) ne by auto
    then have "x \<in> set tab" by (auto dest: in_set_takeD in_set_dropD)
    then show ?thesis using assms(1) that(1,3) by (auto simp: locals_tracked_def list_all_iff)
  qed
  have cnt: "length (filter (\<lambda>e. fst e = fnv1a n) tab) = count_list names n" if "n \<in> set names" for n
    using assms(1) that by (simp add: locals_tracked_def list_all_iff)
  show ?thesis
    unfolding locals_tracked_def e(1) list_all_iff
    using e(2) own f cnt unfolding e(1) by (intro conjI ballI impI) auto
qed

lemma FlushLocalLabels_total:
  assumes "locals_tracked (localLabels st) (labels st)"
  shows "\<exists>st'. FlushLocalLabels st = Some st' \<and> localLabels st' = [] \<and>
           st' = st\<lparr>labels := labels st', localLabels := []\<rparr> \<and>
           list_all (\<lambda>n. fnv1a n \<notin> set (getKeys (labels st'))) (localLabels st)"
proof -
  from FlushLocalLabels_loop_total[OF assms] obtain tab' where
    "FlushLocalLabels_loop (localLabels st) (labels st) = Some tab'"
    "list_all (\<lambda>n. fnv1a n \<notin> set (getKeys tab')) (localLabels st)" by blast
  then show ?thesis by (simp add: FlushLocalLabels_def)
qed

lemma absent_hashes_lookup:
  "list_all (\<lambda>n. fnv1a n \<notin> set (getKeys tab)) names \<Longrightarrow>
     list_all (\<lambda>n. GetLabel tab n = None) names"
  by (auto simp: list_all_iff GetLabel_absent_hash)

lemma BuildSegment_label_flushes:
  assumes "locals_tracked (localLabels st) (labels st)" "\<not> is_local_label label"
    "list_all (\<lambda>n. fnv1a n \<noteq> fnv1a label) (localLabels st)"
  shows "\<exists>st2. flushed (localLabels st) st2 \<and>
           BuildSegment_label label st = CheckLateEval label (- 1) st2 \<and>
           (\<forall>status st'. CheckLateEval label (- 1) st2 = Some (status, st') \<longrightarrow>
              flushed (localLabels st) st')"
proof -
  obtain index tab1 where al: "AddLabel (fnv1a label) (labels st) = (index, tab1)"
    by (cases "AddLabel (fnv1a label) (labels st)")
  define pLabel where "pLabel = \<lparr>label_name = label, label_expression = [], label_value = address st,
                    label_evaluated = True, label_zero_page = False, label_pc_relative = True\<rparr>"
  define st1 where "st1 = st\<lparr>labels := tab1[index := (fnv1a label, pLabel)]\<rparr>"
  have tr1: "locals_tracked (localLabels st1) (labels st1)"
    unfolding st1_def using AddLabel_locals_tracked[OF assms(1) al assms(3), of pLabel] by simp
  have ll: "localLabels st1 = localLabels st" by (simp add: st1_def)
  from FlushLocalLabels_total[OF tr1] ll obtain st2 where
    fl: "FlushLocalLabels st1 = Some st2" and f: "localLabels st2 = []"
    "list_all (\<lambda>n. fnv1a n \<notin> set (getKeys (labels st2))) (localLabels st)" by auto
  have b: "BuildSegment_label label st = CheckLateEval label (- 1) st2"
    unfolding BuildSegment_label_def al Let_def using assms(2) fl
    by (simp add: st1_def pLabel_def)
  have c: "flushed (localLabels st) st'" if "CheckLateEval label (- 1) st2 = Some (status, st')"
    for status st'
  proof -
    from CheckLateEval_same_names[OF that]
    have "getKeys (labels st') = getKeys (labels st2)" "localLabels st' = localLabels st2"
      by (simp_all add: same_names_def)
    then show ?thesis
      using f absent_hashes_lookup[of "labels st'" "localLabels st"] by (simp add: flushed_def)
  qed
  have "flushed (localLabels st) st2"
    using f absent_hashes_lookup[of "labels st2" "localLabels st"] by (simp add: flushed_def)
  then show ?thesis using b c by blast
qed

lemma BuildMacro_flushes:
  assumes "locals_tracked (localLabels st) (labels st)"
  shows "\<exists>status st'. BuildMacro m arg_list expansion st = Some (status, st') \<and>
           (status = STATUS_OK \<longrightarrow> flushed (localLabels st) st')"
proof -
  have "\<exists>st'. FlushLocalLabels (context_push a b c st) = Some st' \<and> flushed (localLabels st) st'" for a b c
  proof -
    have "locals_tracked (localLabels (context_push a b c st)) (labels (context_push a b c st))"
      using assms by (simp add: context_push_def)
    from FlushLocalLabels_total[OF this] obtain st' where
      "FlushLocalLabels (context_push a b c st) = Some st'" "localLabels st' = []"
      "list_all (\<lambda>n. fnv1a n \<notin> set (getKeys (labels st'))) (localLabels st)"
      by (auto simp: context_push_def)
    then show ?thesis
      using absent_hashes_lookup[of "labels st'" "localLabels st"] by (auto simp: flushed_def)
  qed
  note fl = this
  obtain params macro_src1 where p: "(if char_at (macro_text m) 0 = CHR ''(''
      then scoped_block_skip (macro_text m) else ([], macro_text m)) = (params, macro_src1)"
    by (cases "if char_at (macro_text m) 0 = CHR ''(''
      then scoped_block_skip (macro_text m) else ([], macro_text m)")
  show ?thesis
  proof (cases "trim_whitespace params \<noteq> []")
    case True
    show ?thesis
    proof (cases expansion)
      case None
      then show ?thesis using True p by (simp add: BuildMacro_def Let_def)
    next
      case (Some macexp)
      from fl[of "macro_source_name m" macexp macexp] obtain st' where
        "FlushLocalLabels (context_push (macro_source_name m) macexp macexp st) = Some st'"
        "flushed (localLabels st) st'" by blast
      then show ?thesis using True p Some by (simp add: BuildMacro_def Let_def)
    qed
  next
    case False
    from fl[of "macro_source_name m" "macro_source_file m" "skip_whitespace macro_src1"]
    obtain st' where
      "FlushLocalLabels (context_push (macro_source_name m) (macro_source_file m)
         (skip_whitespace macro_src1) st) = Some st'"
      "flushed (localLabels st) st'" by blast
    then show ?thesis using False p by (simp add: BuildMacro_def Let_def)
  qed
qed

text \<open>
  The states of the source lines \<^verbatim>\<open>.a\<close> (a local label at the current address), then
  either \<^verbatim>\<open>g = 5\<close> (\<open>local_a_assigned\<close>) or the label line \<^verbatim>\<open>g\<close> (\<open>local_a_flushed\<close>), from the
  initial state; \<open>macro_nop\<close> is a macro without parameters.
\<close>

definition local_a_1 :: Asm where
  "local_a_1 = Asm_init\<lparr>
     labels := [(1423190704, \<lparr>label_name = ''.a'', label_expression = [], label_value = 0x1000,
                 label_evaluated = True, label_zero_page = False, label_pc_relative = True\<rparr>)],
     localLabels := [''.a'']\<rparr>"

definition local_a_assigned :: Asm where
  "local_a_assigned = Asm_init\<lparr>
     labels := [(1423190704, \<lparr>label_name = ''.a'', label_expression = [], label_value = 0x1000,
                 label_evaluated = True, label_zero_page = False, label_pc_relative = True\<rparr>),
                (3792446982, \<lparr>label_name = ''g'', label_expression = ''5'', label_value = 5,
                 label_evaluated = True, label_zero_page = True, label_pc_relative = False\<rparr>)],
     localLabels := [''.a'']\<rparr>"

definition local_a_flushed :: Asm where
  "local_a_flushed = Asm_init\<lparr>
     labels := [(3792446982, \<lparr>label_name = ''g'', label_expression = [], label_value = 0x1000,
                 label_evaluated = True, label_zero_page = False, label_pc_relative = True\<rparr>)]\<rparr>"

definition macro_nop :: Macro where
  "macro_nop = \<lparr>macro_name = ''m'', macro_text = ''{ nop }'', macro_source_name = ''t.s'',
                macro_source_file = ''macro m { nop }''\<rparr>"

lemma fnv1a_dot_a: "fnv1a ''.a'' = 1423190704" by (simp add: fnv1a_def)

lemma fnv1a_g: "fnv1a ''g'' = 3792446982" by (simp add: fnv1a_def)

lemma local_a_first: "BuildSegment_label ''.a'' Asm_init = Some (STATUS_OK, local_a_1)"
  by (simp add: label_simps fnv1a_dot_a local_a_1_def)

lemma local_a_assign:
  "BuildSegment_assign ''g'' ''5'' STATUS_OK local_a_1 = Some (STATUS_OK, False, local_a_assigned)"
  by code_simp

lemma local_a_lookup: "GetLabel (labels local_a_assigned) ''.a'' = Some 0"
  by code_simp

lemma local_a_tracked: "locals_tracked (localLabels local_a_1) (labels local_a_1)"
  by (simp add: locals_tracked_def local_a_1_def Asm_init_def getKeys_def fnv1a_dot_a)

lemma local_a_label: "BuildSegment_label ''g'' local_a_1 = Some (STATUS_OK, local_a_flushed)"
proof -
  let ?a = "(1423190704 :: u32, \<lparr>label_name = ''.a'', label_expression = [], label_value = 0x1000,
                 label_evaluated = True, label_zero_page = False, label_pc_relative = True\<rparr>)"
  let ?g = "(3792446982 :: u32, \<lparr>label_name = ''g'', label_expression = [], label_value = 0x1000,
                 label_evaluated = True, label_zero_page = False, label_pc_relative = True\<rparr>)"
  have al: "AddLabel (fnv1a ''g'') (labels local_a_1) = (1, [?a, (3792446982, zero_Label)])"
    by (simp add: fnv1a_g local_a_1_def Asm_init_def AddLabel_def FindLabelIndex_def
        FindLabelIndex_loop.simps getKeys_def pa_insert_def)
  have i: "FindLabelIndex (fnv1a ''.a'') (getKeys [?a, ?g]) = 0"
    by (simp add: fnv1a_dot_a FindLabelIndex_def FindLabelIndex_loop.simps getKeys_def)
  have sc: "FlushLocalLabels_scan ''.a'' [?a, ?g] 0 = Some [?g]"
    by (subst FlushLocalLabels_scan_match) (simp_all add: pa_remove_def)
  have fl: "FlushLocalLabels (local_a_1\<lparr>labels := [?a, ?g]\<rparr>) = Some local_a_flushed"
    using i sc by (simp add: FlushLocalLabels_def local_a_1_def local_a_flushed_def Asm_init_def)
  have ce: "CheckLateEval ''g'' (- 1) local_a_flushed = Some (STATUS_OK, local_a_flushed)"
    by (rule CheckLateEval_empty) (simp add: local_a_flushed_def Asm_init_def)
  have ad: "address local_a_1 = 0x1000" by (simp add: local_a_1_def Asm_init_def)
  show ?thesis
    unfolding BuildSegment_label_def al Let_def
    using fl ce ad by (simp add: is_local_label_def char_at_def get_last_def fnv1a_g)
qed

lemma local_a_macro:
  "BuildMacro macro_nop [] None local_a_1 =
     Some (STATUS_OK, local_a_1\<lparr>labels := [], localLabels := [],
        contextStack := [\<lparr>source_name = ''t.s'', source_file = ''macro m { nop }'',
            code_segment = ''{ nop }'', read_source = ''{ nop }''\<rparr>]\<rparr>)"
  by (simp add: BuildMacro_def macro_nop_def char_at_def trim_whitespace_def context_push_def
      local_a_1_def Asm_init_def FlushLocalLabels_def FlushLocalLabels_scan_match pa_remove_def
      FindLabelIndex_def FindLabelIndex_loop.simps getKeys_def fnv1a_dot_a Let_def
      skip_whitespace_def clip_trailing_whitespace_def len_whitespace_def skip_def is_ws_def
      uchar_def)

subsection \<open>\<^verbatim>\<open>struse.h\<close>: words and lines\<close>

text \<open>\<^verbatim>\<open>len_alphanumeric\<close>, \<^verbatim>\<open>get_word\<close>, \<^verbatim>\<open>len_grayspace\<close>, \<^verbatim>\<open>skip_to_whitespace\<close>, \<^verbatim>\<open>next_word_ws\<close>.\<close>

definition len_alphanumeric :: "string \<Rightarrow> nat" where
  "len_alphanumeric s = length (takeWhile is_alphanumeric s)"

definition get_word :: "string \<Rightarrow> string" where
  "get_word s = take (len_alphanumeric s) s"

definition len_grayspace :: "string \<Rightarrow> nat" where
  "len_grayspace s = length (takeWhile (\<lambda>c. \<not> is_ws c) s)"

definition skip_to_whitespace :: "string \<Rightarrow> string" where
  "skip_to_whitespace s = skip (len_grayspace s) s"

definition next_word_ws :: "string \<Rightarrow> string" where
  "next_word_ws s = skip_whitespace (skip_to_whitespace (skip_whitespace s))"

text \<open>\<^verbatim>\<open>before_or_full(char)\<close>, \<^verbatim>\<open>before_or_full(strref)\<close>, \<^verbatim>\<open>get_substr\<close>, \<^verbatim>\<open>between\<close>.\<close>

definition before_or_full :: "char \<Rightarrow> string \<Rightarrow> string" where
  "before_or_full c s = (let o' = find_char s c in if o' \<ge> 0 then take (nat o') s else s)"

definition before_or_full_str :: "string \<Rightarrow> string \<Rightarrow> string" where
  "before_or_full_str str s = (let o' = find_str s str in if o' < 0 then s else take (nat o') s)"

definition get_substr :: "nat \<Rightarrow> nat \<Rightarrow> string \<Rightarrow> string" where
  "get_substr pos len s =
     (if pos < length s then take (if pos + len < length s then len else length s - pos) (drop pos s)
      else [])"

definition between :: "char \<Rightarrow> char \<Rightarrow> string \<Rightarrow> string" where
  "between c d s =
     (let b = find_char s c in
      if b \<ge> 0 then
        (let e = find_after s d (nat b) in
         if e \<ge> 0 then get_substr (nat b + 1) (nat (e - b - 1)) s else [])
      else [])"

text \<open>
  \<^verbatim>\<open>next_line\<close>: the characters up to the first line feed or carriage return, and the
  string moved past the line end (a pair of the two characters in either order counts as
  one line end). The pair is (line, rest).
\<close>

definition is_eol :: "char \<Rightarrow> bool" where
  "is_eol c = (c = CHR 0x0A \<or> c = CHR 0x0D)"

definition next_line :: "string \<Rightarrow> string \<times> string" where
  "next_line s =
     (let ret = takeWhile (\<lambda>c. \<not> is_eol c) s;
          scan = dropWhile (\<lambda>c. \<not> is_eol c) s
      in case scan of
           [] \<Rightarrow> (ret, [])
         | c # scan1 \<Rightarrow>
             (case scan1 of
                [] \<Rightarrow> (ret, [])
              | d # scan2 \<Rightarrow>
                  if (c = CHR 0x0A \<and> d = CHR 0x0D) \<or> (c = CHR 0x0D \<and> d = CHR 0x0A)
                  then (ret, scan2) else (ret, scan1)))"

lemma next_line_length:
  "next_line s = (ret, s') \<Longrightarrow> length s' \<le> length s \<and> (s \<noteq> [] \<longrightarrow> ret = [] \<longrightarrow> length s' < length s)"
proof -
  assume a: "next_line s = (ret, s')"
  let ?scan = "dropWhile (\<lambda>c. \<not> is_eol c) s"
  have l: "length ?scan \<le> length s" by (rule length_dropWhile_le)
  have r: "ret = takeWhile (\<lambda>c. \<not> is_eol c) s"
    using a by (auto simp: next_line_def Let_def split: list.splits if_splits)
  have e: "ret = [] \<Longrightarrow> ?scan = s"
    unfolding r by (metis append.left_neutral takeWhile_dropWhile_id)
  have s: "length s' \<le> length ?scan \<and> (?scan \<noteq> [] \<longrightarrow> length s' < length ?scan)"
    using a by (auto simp: next_line_def Let_def split: list.splits if_splits)
  show ?thesis
  proof (intro conjI impI)
    show "length s' \<le> length s" using l s by simp
    assume "s \<noteq> []" "ret = []"
    then have "?scan = s" "?scan \<noteq> []" using e by simp_all
    then show "length s' < length s" using s by metis
  qed
qed

text \<open>
  \<^verbatim>\<open>line()\<close>: \<^verbatim>\<open>while (valid() && !ret.valid()) ret = next_line();\<close>, the first line that is
  not empty. \<open>line_from offs s\<close> is (line, offset of the line, rest), the offset counted
  from \<open>offs\<close> at the start of \<open>s\<close>.
\<close>

function line_from :: "nat \<Rightarrow> string \<Rightarrow> string \<times> nat \<times> string" where
  "line_from offs s =
     (if s = [] then ([], offs, [])
      else (let (ret, s') = next_line s in
            if ret \<noteq> [] then (ret, offs, s')
            else line_from (offs + (length s - length s')) s'))"
  by pat_completeness auto
termination
proof (relation "measure (\<lambda>(offs, s). length s)", goal_cases)
  case 1
  then show ?case by simp
next
  case (2 offs s x ret s')
  then show ?case using next_line_length[of s ret s'] by simp
qed

declare line_from.simps [simp del]

text \<open>
  Modelled from the spec: \<^verbatim>\<open>get_label\<close>, \<^verbatim>\<open>split_label\<close> and \<^verbatim>\<open>fnv1a_lower\<close> are called by the
  assembler and are not among the sources. \<^verbatim>\<open>get_label\<close> is the leading run of label
  characters (\<^verbatim>\<open>len_label\<close> of \<^verbatim>\<open>struse.h\<close>); \<^verbatim>\<open>split_label\<close> returns that run and moves the
  string past it (the pair is (label, rest)); \<^verbatim>\<open>fnv1a_lower\<close> is the FNV-1a hash of the
  string with its letters in lower case, so that mnemonics and directives are looked up
  without regard to case.
\<close>

definition get_label :: "string \<Rightarrow> string" where
  "get_label s = take (len_label s) s"

definition split_label :: "string \<Rightarrow> string \<times> string" where
  "split_label s = (take (len_label s) s, skip (len_label s) s)"

definition fnv1a_lower :: "string \<Rightarrow> u32" where
  "fnv1a_lower s = fnv1a (map int_tolower_ascii7 s)"

lemma split_token_trim_length:
  assumes "split_token_trim c s = (r, kept)" "r \<noteq> []"
  shows "length kept < length s"
proof -
  obtain r0 k0 where st: "split_token c s = (r0, k0)" by (cases "split_token c s")
  then have t: "r = trim_whitespace r0" and kk: "kept = trim_whitespace k0"
    using assms(1) by (auto simp: split_token_trim_def)
  have "r0 \<noteq> []" using t assms(2)
    by (auto simp: trim_whitespace_def clip_trailing_whitespace_def skip_whitespace_def skip_def
        len_whitespace_def)
  then have "length k0 < length s"
    using st by (auto simp: split_token_def Let_def skip_def split: if_splits)
  then show ?thesis using kk trim_whitespace_length_le[of k0] by simp
qed

subsection \<open>Macros (\<^verbatim>\<open>Asm::AddMacro\<close>)\<close>

text \<open>\<open>emit\<close>: bytes written through \<^verbatim>\<open>*curr++\<close>.\<close>

definition emit :: "u8 list \<Rightarrow> Asm \<Rightarrow> Asm" where
  "emit bytes st = st\<lparr>output := output st @ bytes\<rparr>"

definition zero_Macro :: Macro where
  "zero_Macro = \<lparr>macro_name = [], macro_text = [], macro_source_name = [], macro_source_file = []\<rparr>"

text \<open>
  The scan of \<^verbatim>\<open>AddMacro\<close> over the macros of one hash,
  \<^verbatim>\<open>while (ins < macros.count() && macros.getKey(ins)==hash)\<close>: the index where the scan
  stops, and whether a macro of the name was found there.
\<close>

function AddMacro_scan :: "(u32 \<times> Macro) list \<Rightarrow> string \<Rightarrow> u32 \<Rightarrow> nat \<Rightarrow> nat \<times> bool" where
  "AddMacro_scan tab name hash ins =
     (if ins < length tab \<and> fst (tab ! ins) = hash then
        (if same_str_case name (macro_name (snd (tab ! ins))) then (ins, True)
         else AddMacro_scan tab name hash (ins + 1))
      else (ins, False))"
  by pat_completeness auto
termination
  by (relation "measure (\<lambda>(tab, name, hash, ins). length tab - ins)") auto

declare AddMacro_scan.simps [simp del]

text \<open>
  \<^verbatim>\<open>Asm::AddMacro\<close>. The text kept for the macro is
  \<^verbatim>\<open>strref(macro.get(), pos_bracket + macro_body.get_len() + 2)\<close>: from the parameter list or
  the opening brace through the closing brace.
\<close>

definition AddMacro :: "string \<Rightarrow> string \<Rightarrow> string \<Rightarrow> Asm \<Rightarrow> StatusCode \<times> Asm" where
  "AddMacro macro src_name src_file st =
     (let (name, macro1) = split_label macro;
          macro2 = skip_whitespace macro1
      in if char_at macro2 0 \<noteq> CHR ''('' \<and> char_at macro2 0 \<noteq> CHR ''{''
         then (ERROR_BAD_MACRO_FORMAT, st)
         else
           (let hash = fnv1a name;
                (ins, found) = AddMacro_scan (macros st) name hash
                                 (FindLabelIndex hash (getKeys (macros st)));
                tab = (if found then macros st else pa_insert ins hash zero_Macro (macros st));
                m = (snd (tab ! ins))\<lparr>macro_name := name\<rparr>;
                pos_bracket = find_char macro2 CHR ''{''
            in if pos_bracket < 0
               then (ERROR_BAD_MACRO_FORMAT,
                     st\<lparr>macros := tab[ins := (hash, m\<lparr>macro_text := []\<rparr>)]\<rparr>)
               else
                 (let (macro_body, rest) = scoped_block_skip (skip (nat pos_bracket) macro2);
                      m' = m\<lparr>macro_text := take (nat pos_bracket + length macro_body + 2) macro2,
                             macro_source_name := src_name, macro_source_file := src_file\<rparr>
                  in (STATUS_OK, st\<lparr>macros := tab[ins := (hash, m')]\<rparr>))))"

subsection \<open>Directives (\<^verbatim>\<open>Asm::ApplyDirective\<close>)\<close>

datatype AssemblerDirective =
    AD_ORG | AD_LOAD | AD_ALIGN | AD_MACRO | AD_EVAL | AD_BYTES | AD_WORDS | AD_TEXT
  | AD_INCLUDE | AD_INCBIN

text \<open>\<^verbatim>\<open>case AD_ORG\<close> and \<^verbatim>\<open>case AD_LOAD\<close>, which have the same body.\<close>

definition ApplyDirective_org :: "string \<Rightarrow> Asm \<Rightarrow> (StatusCode \<times> Asm) option" where
  "ApplyDirective_org line st =
     (let line' = (if char_at line 0 = CHR ''='' \<or> same_str (get_word line) ''equ''
                   then next_word_ws line else line)
      in case scope_pc_of st of
           None \<Rightarrow> None
         | Some scope_pc \<Rightarrow>
             (case EvalExpression (labels st) line' (address st) scope_pc (- 1) 0 of
                None \<Rightarrow> None
              | Some (error, addr) \<Rightarrow>
                  if error \<noteq> STATUS_OK
                  then Some (if error = STATUS_NOT_READY
                             then ERROR_TARGET_ADDRESS_MUST_EVALUATE_IMMEDIATELY else error, st)
                  else Some (STATUS_OK,
                         st\<lparr>address := addr,
                            scope_address := (scope_address st)[nat (scope_depth st) := addr],
                            load_address := (if set_load_address st then load_address st else addr),
                            set_load_address := True\<rparr>)))"

text \<open>
  \<^verbatim>\<open>case AD_ALIGN\<close>. \<^verbatim>\<open>address\<close> is \<^verbatim>\<open>unsigned int\<close>, so \<^verbatim>\<open>(address + value-1) % value\<close> is
  computed on unsigned values.
\<close>

definition ApplyDirective_align :: "string \<Rightarrow> Asm \<Rightarrow> (StatusCode \<times> Asm) option" where
  "ApplyDirective_align line st =
     (if line \<noteq> [] then
        (case scope_pc_of st of
           None \<Rightarrow> None
         | Some scope_pc \<Rightarrow>
             (case EvalExpression (labels st) line (address st) scope_pc (- 1) 0 of
                None \<Rightarrow> None
              | Some (status, val) \<Rightarrow>
                  if status = STATUS_NOT_READY
                  then Some (ERROR_ALIGN_MUST_EVALUATE_IMMEDIATELY, st)
                  else if status = STATUS_OK \<and> 0 <s val then
                    (let add = (address st + val - 1) mod val
                     in Some (STATUS_OK,
                              emit (replicate (unat add) 0) (st\<lparr>address := address st + add\<rparr>)))
                  else Some (STATUS_OK, st)))
      else Some (STATUS_OK, st))"

text \<open>
  \<^verbatim>\<open>case AD_BYTES\<close> and \<^verbatim>\<open>case AD_WORDS\<close>: the loops
  \<^verbatim>\<open>while (strref exp = line.split_token_trim(','))\<close>, where \<open>exp\<close> is the text after the first
  comma of \<open>line\<close> and \<open>line\<close> keeps the text before it (\<open>split_token_trim\<close> above): the loop
  ends when \<open>line\<close> holds no comma. When an expression is not ready, the
  source writes the variable \<^verbatim>\<open>value\<close> it has not initialised; the model writes 0 there, as
  \<^verbatim>\<open>AddOpcode\<close> does.
\<close>

function ApplyDirective_bytes :: "string \<Rightarrow> string \<Rightarrow> StatusCode \<Rightarrow> Asm \<Rightarrow> (StatusCode \<times> Asm) option" where
  "ApplyDirective_bytes src_file line error st =
     (let (exp, line') = split_token_trim CHR '','' line in
      if exp = [] then Some (error, st)
      else
        (case scope_pc_of st of
           None \<Rightarrow> None
         | Some scope_pc \<Rightarrow>
             (case EvalExpression (labels st) exp (address st) scope_pc (- 1) 0 of
                None \<Rightarrow> None
              | Some (error', val) \<Rightarrow>
                  if status_num error' > status_num STATUS_NOT_READY then Some (error', st)
                  else
                    (let st1 = (if error' = STATUS_NOT_READY
                                then AddLateEval_target (address st) scope_pc (length (output st))
                                       exp src_file LET_BYTE st
                                else st);
                         st2 = (emit [ucast val] st1)\<lparr>address := address st1 + 1\<rparr>
                     in ApplyDirective_bytes src_file line' error' st2))))"
  by pat_completeness auto
termination
proof (relation "measure (\<lambda>(src_file, line, error, st). length line)", goal_cases)
  case 1
  then show ?case by simp
next
  case (2 src_file line error st x exp line' scope_pc x2 error' val)
  then show ?case using split_token_trim_length[of "CHR '',''" line exp line'] by simp
qed

declare ApplyDirective_bytes.simps [simp del]

function ApplyDirective_words :: "string \<Rightarrow> string \<Rightarrow> StatusCode \<Rightarrow> Asm \<Rightarrow> (StatusCode \<times> Asm) option" where
  "ApplyDirective_words src_file line error st =
     (let (exp, line') = split_token_trim CHR '','' line in
      if exp = [] then Some (error, st)
      else
        (case scope_pc_of st of
           None \<Rightarrow> None
         | Some scope_pc \<Rightarrow>
             (case EvalExpression (labels st) exp (address st) scope_pc (- 1) 0 of
                None \<Rightarrow> None
              | Some (error', val) \<Rightarrow>
                  if status_num error' > status_num STATUS_NOT_READY then Some (error', st)
                  else
                    (let st1 = (if error' = STATUS_NOT_READY
                                then AddLateEval_target (address st) scope_pc (length (output st))
                                       exp src_file LET_ABS_REF st
                                else st);
                         st2 = (emit [ucast val, ucast (signed_drop_bit 8 val)] st1)
                                 \<lparr>address := address st1 + 2\<rparr>
                     in ApplyDirective_words src_file line' error' st2))))"
  by pat_completeness auto
termination
proof (relation "measure (\<lambda>(src_file, line, error, st). length line)", goal_cases)
  case 1
  then show ?case by simp
next
  case (2 src_file line error st x exp line' scope_pc x2 error' val)
  then show ?case using split_token_trim_length[of "CHR '',''" line exp line'] by simp
qed

declare ApplyDirective_words.simps [simp del]

text \<open>\<^verbatim>\<open>case AD_TEXT\<close>.\<close>

definition ApplyDirective_text :: "string \<Rightarrow> Asm \<Rightarrow> Asm" where
  "ApplyDirective_text line st =
     (let line1 = trim_whitespace line;
          line2 = (if char_at line1 0 = CHR ''\"'' then
                     (let l = incr line1 in if get_last l = CHR ''\"'' then clip 1 l else l)
                   else line1)
      in (emit (map (\<lambda>c. of_nat (of_char c)) line2) st)
           \<lparr>address := address st + of_nat (length line2)\<rparr>)"

text \<open>
  \<^verbatim>\<open>case AD_MACRO\<close>. The source works on the pointers into the text of the current context:
  \<open>line_offs\<close> is \<^verbatim>\<open>line.get()-contextStack.curr().code_segment.get()\<close>, the offset of \<open>line\<close>
  in the code segment. The macro is the text from \<open>line\<close> through the brace that closes the
  first block, and \<^verbatim>\<open>read_source\<close> is moved to the character after that brace with
  \<^verbatim>\<open>operator+=\<close>, which clears the string when the count is not below its length: so it
  does when the brace lies before \<^verbatim>\<open>read_source\<close> (the unsigned count wraps). No result is
  defined when \<open>line\<close> is empty (its pointer is null) or when the block has no closing brace
  (\<^verbatim>\<open>block\<close> is null).
\<close>

definition ApplyDirective_macro :: "string \<Rightarrow> nat \<Rightarrow> Asm \<Rightarrow> (StatusCode \<times> Asm) option" where
  "ApplyDirective_macro line line_offs st =
     (case contextStack st of
        [] \<Rightarrow> None
      | ctx # below \<Rightarrow>
          if line = [] then None
          else
            (let from_here = skip line_offs (code_segment ctx);
                 block_start = find_char from_here CHR ''{''
             in if block_start > 0 then
                  (let (block, rest) = scoped_block_skip (skip (nat block_start) from_here)
                   in if length rest = length (skip (nat block_start) from_here) then None
                      else
                        (let block_end = nat block_start + 1 + length block;
                             (error, st1) = AddMacro (take (block_end + 1) from_here)
                                              (source_name ctx) (source_file ctx) st;
                             rs_offs = length (code_segment ctx) - length (read_source ctx);
                             target = line_offs + block_end + 1;
                             rs = (if target < rs_offs then []
                                   else skip (target - rs_offs) (read_source ctx))
                         in Some (error,
                                  st1\<lparr>contextStack := ctx\<lparr>read_source := rs\<rparr> # below\<rparr>)))
                else Some (STATUS_OK, st)))"

text \<open>
  \<^verbatim>\<open>Asm::ApplyDirective\<close>. \<open>LoadText\<close> and \<open>LoadBinary\<close> stand for the two functions of the
  source that read a file: the content of the file of the name, \<open>None\<close> when it cannot be
  read. \<^verbatim>\<open>EVAL\<close> prints to \<^verbatim>\<open>stdout\<close>, which the model leaves out.
\<close>

definition ApplyDirective ::
  "(string \<Rightarrow> string option) \<Rightarrow> (string \<Rightarrow> u8 list option) \<Rightarrow> AssemblerDirective \<Rightarrow>
     string \<Rightarrow> nat \<Rightarrow> string \<Rightarrow> Asm \<Rightarrow> (StatusCode \<times> Asm) option" where
  "ApplyDirective LoadText LoadBinary dir line line_offs src_file st =
     (case dir of
        AD_ORG \<Rightarrow> ApplyDirective_org line st
      | AD_LOAD \<Rightarrow> ApplyDirective_org line st
      | AD_ALIGN \<Rightarrow> ApplyDirective_align line st
      | AD_EVAL \<Rightarrow>
          (let (description, line1) = split_token_trim CHR '':'' line;
               line2 = trim_whitespace line1
           in if line2 \<noteq> [] then
                (case scope_pc_of st of
                   None \<Rightarrow> None
                 | Some scope_pc \<Rightarrow>
                     (case EvalExpression (labels st) line2 (address st) scope_pc (- 1) 0 of
                        None \<Rightarrow> None
                      | Some r \<Rightarrow> Some (STATUS_OK, st)))
              else Some (STATUS_OK, st))
      | AD_BYTES \<Rightarrow> ApplyDirective_bytes src_file line STATUS_OK st
      | AD_WORDS \<Rightarrow> ApplyDirective_words src_file line STATUS_OK st
      | AD_TEXT \<Rightarrow> Some (STATUS_OK, ApplyDirective_text line st)
      | AD_MACRO \<Rightarrow> ApplyDirective_macro line line_offs st
      | AD_INCLUDE \<Rightarrow>
          (let name = between CHR ''\"'' CHR ''\"'' line in
           case LoadText name of
             None \<Rightarrow> Some (STATUS_OK, st)
           | Some src \<Rightarrow> Some (STATUS_OK, context_push name src src st))
      | AD_INCBIN \<Rightarrow>
          (let name = between CHR ''\"'' CHR ''\"'' line in
           case LoadBinary name of
             None \<Rightarrow> Some (STATUS_OK, st)
           | Some bytes \<Rightarrow>
               Some (STATUS_OK, (emit bytes st)\<lparr>address := address st + of_nat (length bytes)\<rparr>)))"

subsection \<open>Instructions (\<^verbatim>\<open>Asm::GetAddressMode\<close>, \<^verbatim>\<open>Asm::AddOpcode\<close>)\<close>

datatype AddressingMode =
    AM_REL_ZP_X | AM_ZP | AM_IMMEDIATE | AM_ABSOLUTE | AM_REL_ZP_Y | AM_ZP_X | AM_ABSOLUTE_Y
  | AM_ABSOLUTE_X | AM_RELATIVE | AM_ACCUMULATOR | AM_NONE | AM_INVALID

fun am_num :: "AddressingMode \<Rightarrow> nat" where
  "am_num AM_REL_ZP_X = 0"
| "am_num AM_ZP = 1"
| "am_num AM_IMMEDIATE = 2"
| "am_num AM_ABSOLUTE = 3"
| "am_num AM_REL_ZP_Y = 4"
| "am_num AM_ZP_X = 5"
| "am_num AM_ABSOLUTE_Y = 6"
| "am_num AM_ABSOLUTE_X = 7"
| "am_num AM_RELATIVE = 8"
| "am_num AM_ACCUMULATOR = 9"
| "am_num AM_NONE = 10"
| "am_num AM_INVALID = 11"

datatype CODE_ARG = CA_NONE | CA_ONE_BYTE | CA_TWO_BYTES | CA_BRANCH

text \<open>\<^verbatim>\<open>enum OP_GROUP\<close> and \<^verbatim>\<open>enum OP_INDICES\<close>, as the numbers the tables are indexed with.\<close>

definition OPG_SUBROUT :: nat where "OPG_SUBROUT = 0"
definition OPG_CC01 :: nat where "OPG_CC01 = 1"
definition OPG_CC10 :: nat where "OPG_CC10 = 2"
definition OPG_STACK :: nat where "OPG_STACK = 3"
definition OPG_BRANCH :: nat where "OPG_BRANCH = 4"
definition OPG_FLAG :: nat where "OPG_FLAG = 5"
definition OPG_CC00 :: nat where "OPG_CC00 = 6"
definition OPG_TRANS :: nat where "OPG_TRANS = 7"

definition OPI_JSR :: nat where "OPI_JSR = 1"
definition OPI_LDX :: nat where "OPI_LDX = 5"
definition OPI_STX :: nat where "OPI_STX = 4"
definition OPI_STA :: nat where "OPI_STA = 4"
definition OPI_JMP :: nat where "OPI_JMP = 1"

definition aMulAddGroup :: "(nat \<times> nat) list" where
  "aMulAddGroup = [(0x20, 0x00), (0x20, 0x01), (0x20, 0x02), (0x20, 0x08), (0x20, 0x10),
                   (0x20, 0x18), (0x20, 0x20), (0x10, 0x8a)]"

definition CC00ModeAdd :: "nat list" where
  "CC00ModeAdd = [0xff, 4, 0, 12, 0xff, 20, 0xff, 28]"

definition CC00Mask :: "nat list" where
  "CC00Mask = [0x0a, 0x08, 0x08, 0x2a, 0xae, 0x0e, 0x0e]"

definition CC10ModeAdd :: "nat list" where
  "CC10ModeAdd = [0xff, 4, 0, 12, 0xff, 20, 0xff, 28]"

definition CC10Mask :: "nat list" where
  "CC10Mask = [0xaa, 0xaa, 0xaa, 0xaa, 0x2a, 0xae, 0xaa, 0xaa]"

text \<open>\<^verbatim>\<open>mask & (1<<addrMode)\<close> is not 0.\<close>

definition mask_has :: "nat \<Rightarrow> nat \<Rightarrow> bool" where
  "mask_has m n = odd (m div 2 ^ n)"

text \<open>
  \<^verbatim>\<open>Asm::GetAddressMode\<close>: the addressing mode, \<^verbatim>\<open>error\<close> and \<^verbatim>\<open>expression\<close> after the call.
  The loop \<^verbatim>\<open>while (need_more)\<close> goes round again only after \<^verbatim>\<open>.z\<close>, with \<open>force_zp\<close> set.
  \<^verbatim>\<open>expression = line.split_token_trim(',')\<close> takes the text after the first comma as the
  expression (none when the operand holds no comma) and leaves the text before it in
  \<open>line\<close>, where the tests for \<^verbatim>\<open>x\<close> and \<^verbatim>\<open>y\<close> then look.
\<close>

function GetAddressMode_loop ::
  "string \<Rightarrow> bool \<Rightarrow> bool \<Rightarrow> StatusCode \<Rightarrow> string \<Rightarrow> AddressingMode \<times> StatusCode \<times> string" where
  "GetAddressMode_loop line flipXY force_zp error expression =
     (let c = get_first line in
      if c = CHR 0x00 then (AM_NONE, error, expression)
      else if c = CHR ''('' then
        (let (deco, line1) = scoped_block_skip line;
             line2 = skip_whitespace line1;
             (expression', deco') = split_token_trim CHR '','' deco
         in if char_at deco' 0 = CHR ''x'' \<or> char_at deco' 0 = CHR ''X''
            then (AM_REL_ZP_X, error, expression')
            else if char_at line2 0 = CHR '','' then
              (let line3 = skip_whitespace (incr line2)
               in if char_at line3 0 = CHR ''y'' \<or> char_at line3 0 = CHR ''Y''
                  then (AM_REL_ZP_Y, error, expression')
                  else (AM_RELATIVE, error, expression'))
            else (AM_RELATIVE, error, expression'))
      else if c = CHR ''#'' then (AM_IMMEDIATE, error, incr line)
      else if c = CHR ''.'' then
        (let line1 = incr line; c1 = get_first line1
         in if c1 = CHR ''z'' \<or> c1 = CHR ''Z''
            then GetAddressMode_loop (incr line1) flipXY True error expression
            else (AM_INVALID, ERROR_UNEXPECTED_CHARACTER_IN_ADDRESSING_MODE, expression))
      else if line \<noteq> [] then
        (if same_str (get_label line) ''A'' then (AM_ACCUMULATOR, error, expression)
         else
           (let addrMode = (if force_zp then AM_ZP else AM_ABSOLUTE);
                (expression', line1) = split_token_trim CHR '','' line;
                relX = (line1 \<noteq> [] \<and> (char_at line1 0 = CHR ''x'' \<or> char_at line1 0 = CHR ''X''));
                relY = (line1 \<noteq> [] \<and> (char_at line1 0 = CHR ''y'' \<or> char_at line1 0 = CHR ''Y''))
            in if (flipXY \<and> relY) \<or> (\<not> flipXY \<and> relX)
               then (if addrMode = AM_ZP then AM_ZP_X else AM_ABSOLUTE_X, error, expression')
               else if (flipXY \<and> relX) \<or> (\<not> flipXY \<and> relY)
               then (if force_zp then (addrMode, ERROR_INSTRUCTION_NOT_ZP, expression')
                     else (AM_ABSOLUTE_Y, error, expression'))
               else (addrMode, error, expression')))
      else (AM_INVALID, error, expression))"
  by pat_completeness auto
termination
proof (relation "measure (\<lambda>(line, flipXY, force_zp, error, expression). length line)", goal_cases)
  case 1
  then show ?case by simp
next
  case (2 line flipXY force_zp error expression c line1 c1)
  then show ?case by (cases line) (auto simp: incr_def get_first_def split: list.splits)
qed

declare GetAddressMode_loop.simps [simp del]

definition GetAddressMode ::
  "string \<Rightarrow> bool \<Rightarrow> StatusCode \<Rightarrow> string \<Rightarrow> AddressingMode \<times> StatusCode \<times> string" where
  "GetAddressMode line flipXY error expression =
     GetAddressMode_loop line flipXY False error expression"

text \<open>
  \<^verbatim>\<open>Asm::AddOpcode\<close>, in the order of the source. First the operand: the value of the
  expression, \<open>evalLater\<close>, and the status (an error other than \<^verbatim>\<open>STATUS_NOT_READY\<close> returns
  from the function).
\<close>

definition AddOpcode_operand ::
  "string \<Rightarrow> StatusCode \<Rightarrow> Asm \<Rightarrow> (StatusCode \<times> bool \<times> u32) option" where
  "AddOpcode_operand expression error st =
     (if expression \<noteq> [] then
        (case scope_pc_of st of
           None \<Rightarrow> None
         | Some scope_pc \<Rightarrow>
             (case EvalExpression (labels st) expression (address st) scope_pc (- 1) 0 of
                None \<Rightarrow> None
              | Some (error', val) \<Rightarrow>
                  if error' = STATUS_NOT_READY then Some (STATUS_OK, True, val)
                  else Some (error', False, val)))
      else Some (error, False, 0))"

text \<open>\<^verbatim>\<open>if (!evalLater && value>=0 && value<0x100)\<close>: absolute modes become zero-page modes.\<close>

definition AddOpcode_narrow :: "bool \<Rightarrow> u32 \<Rightarrow> AddressingMode \<Rightarrow> AddressingMode" where
  "AddOpcode_narrow evalLater val addrMode =
     (if \<not> evalLater \<and> 0 \<le>s val \<and> val <s 0x100 then
        (case addrMode of
           AM_ABSOLUTE \<Rightarrow> AM_ZP
         | AM_ABSOLUTE_X \<Rightarrow> AM_ZP_X
         | _ \<Rightarrow> addrMode)
      else addrMode)"

text \<open>
  \<^verbatim>\<open>switch (group)\<close>: the status, the kind of argument and the opcode
  (\<^verbatim>\<open>unsigned char\<close>). A read past the end of a table has no defined result.
\<close>

definition two_byte_mode :: "AddressingMode \<Rightarrow> bool" where
  "two_byte_mode addrMode =
     (addrMode = AM_ABSOLUTE \<or> addrMode = AM_ABSOLUTE_Y \<or> addrMode = AM_ABSOLUTE_X)"

definition AddOpcode_encode ::
  "nat \<Rightarrow> nat \<Rightarrow> nat \<Rightarrow> AddressingMode \<Rightarrow> StatusCode \<Rightarrow> (StatusCode \<times> CODE_ARG \<times> u8) option" where
  "AddOpcode_encode grp index base_opcode addrMode error =
     (if grp = OPG_BRANCH then
        (if addrMode \<noteq> AM_ABSOLUTE
         then Some (ERROR_INVALID_ADDRESSING_MODE_FOR_BRANCH, CA_NONE, of_nat base_opcode)
         else Some (error, CA_BRANCH, of_nat base_opcode))
      else if grp = OPG_SUBROUT then
        (if index = 1 then
           (if addrMode \<noteq> AM_ABSOLUTE
            then Some (ERROR_INVALID_ADDRESSING_MODE_FOR_BRANCH, CA_NONE, of_nat base_opcode)
            else Some (error, CA_TWO_BYTES, of_nat base_opcode))
         else Some (error, CA_NONE, of_nat base_opcode))
      else if grp = OPG_STACK \<or> grp = OPG_FLAG \<or> grp = OPG_TRANS then
        Some (error, CA_NONE, of_nat base_opcode)
      else if grp = OPG_CC00 then
        (let jmp_rel = (addrMode = AM_RELATIVE \<and> index = OPI_JMP);
             base_opcode' = (if jmp_rel then base_opcode + 0x20 else base_opcode);
             addrMode' = (if jmp_rel then AM_ABSOLUTE else addrMode)
         in if am_num addrMode' > 7 then Some (ERROR_BAD_ADDRESSING_MODE, CA_NONE, of_nat base_opcode)
            else if index \<ge> length CC00Mask then None
            else if \<not> mask_has (CC00Mask ! index) (am_num addrMode')
            then Some (ERROR_BAD_ADDRESSING_MODE, CA_NONE, of_nat base_opcode)
            else Some (error, if two_byte_mode addrMode' then CA_TWO_BYTES else CA_ONE_BYTE,
                       of_nat (base_opcode' + CC00ModeAdd ! am_num addrMode')))
      else if grp = OPG_CC01 then
        (if am_num addrMode > 7 \<or> (addrMode = AM_IMMEDIATE \<and> index = OPI_STA)
         then Some (ERROR_BAD_ADDRESSING_MODE, CA_NONE, of_nat base_opcode)
         else Some (error, if two_byte_mode addrMode then CA_TWO_BYTES else CA_ONE_BYTE,
                    of_nat (base_opcode + am_num addrMode * 4)))
      else if grp = OPG_CC10 then
        (if addrMode = AM_NONE \<or> addrMode = AM_ACCUMULATOR then
           (if index \<ge> 4 then Some (ERROR_BAD_ADDRESSING_MODE, CA_NONE, of_nat base_opcode)
            else Some (error, CA_NONE, of_nat (base_opcode + 8)))
         else if am_num addrMode > 7 then Some (ERROR_BAD_ADDRESSING_MODE, CA_NONE, of_nat base_opcode)
         else if index \<ge> length CC10Mask then None
         else if \<not> mask_has (CC10Mask ! index) (am_num addrMode)
         then Some (ERROR_BAD_ADDRESSING_MODE, CA_NONE, of_nat base_opcode)
         else Some (error,
                    if addrMode = AM_IMMEDIATE \<or> addrMode = AM_ZP \<or> addrMode = AM_ZP_X
                    then CA_ONE_BYTE else CA_TWO_BYTES,
                    of_nat (base_opcode + CC10ModeAdd ! am_num addrMode)))
      else Some (error, CA_NONE, of_nat base_opcode))"

text \<open>
  \<^verbatim>\<open>switch (codeArg)\<close>: the instruction and its argument are written. A branch moves
  \<^verbatim>\<open>address\<close> past the instruction first; when its target is known the displacement is
  \<^verbatim>\<open>value-address\<close>, and out of the range -128..127 the function returns the error with
  \<^verbatim>\<open>address\<close> moved and nothing written. A target of a late evaluation is the offset in the
  output of the byte to fill in.
\<close>

definition AddOpcode_emit ::
  "CODE_ARG \<Rightarrow> u8 \<Rightarrow> bool \<Rightarrow> u32 \<Rightarrow> string \<Rightarrow> string \<Rightarrow> Asm \<Rightarrow> (StatusCode \<times> Asm) option" where
  "AddOpcode_emit codeArg opcode evalLater val expression src_file st =
     (case codeArg of
        CA_BRANCH \<Rightarrow>
          (let st1 = st\<lparr>address := address st + 2\<rparr> in
           if evalLater then
             (case scope_pc_of st1 of
                None \<Rightarrow> None
              | Some scope_pc \<Rightarrow>
                  Some (STATUS_OK,
                        emit [opcode, 0]
                          (AddLateEval_target (address st1) scope_pc (length (output st1) + 1)
                             expression src_file LET_BRANCH st1)))
           else if val - address st1 <s - 128 \<or> 127 <s val - address st1
           then Some (ERROR_BRANCH_OUT_OF_RANGE, st1)
           else Some (STATUS_OK, emit [opcode, ucast (val - address st1)] st1))
      | CA_ONE_BYTE \<Rightarrow>
          (if evalLater then
             (case scope_pc_of st of
                None \<Rightarrow> None
              | Some scope_pc \<Rightarrow>
                  Some (STATUS_OK,
                        (emit [opcode, ucast val]
                           (AddLateEval_target (address st) scope_pc (length (output st) + 1)
                              expression src_file LET_BYTE st))\<lparr>address := address st + 2\<rparr>))
           else Some (STATUS_OK, (emit [opcode, ucast val] st)\<lparr>address := address st + 2\<rparr>))
      | CA_TWO_BYTES \<Rightarrow>
          (if evalLater then
             (case scope_pc_of st of
                None \<Rightarrow> None
              | Some scope_pc \<Rightarrow>
                  Some (STATUS_OK,
                        (emit [opcode, ucast val, ucast (signed_drop_bit 8 val)]
                           (AddLateEval_target (address st) scope_pc (length (output st) + 1)
                              expression src_file LET_ABS_REF st))\<lparr>address := address st + 3\<rparr>))
           else Some (STATUS_OK,
                      (emit [opcode, ucast val, ucast (signed_drop_bit 8 val)] st)
                        \<lparr>address := address st + 3\<rparr>))
      | CA_NONE \<Rightarrow> Some (STATUS_OK, (emit [opcode] st)\<lparr>address := address st + 1\<rparr>))"

definition AddOpcode :: "string \<Rightarrow> nat \<Rightarrow> nat \<Rightarrow> string \<Rightarrow> Asm \<Rightarrow> (StatusCode \<times> Asm) option" where
  "AddOpcode line grp index src_file st =
     (if grp \<ge> length aMulAddGroup then None
      else
        (let base_opcode = snd (aMulAddGroup ! grp) + index * fst (aMulAddGroup ! grp);
             (addrMode, error, expression) =
                GetAddressMode line (grp = OPG_CC10 \<and> index \<ge> OPI_STX \<and> index \<le> OPI_LDX)
                  STATUS_OK []
         in case AddOpcode_operand expression error st of
              None \<Rightarrow> None
            | Some (error1, evalLater, val) \<Rightarrow>
                if expression \<noteq> [] \<and> error1 \<noteq> STATUS_OK then Some (error1, st)
                else
                  (case AddOpcode_encode grp index base_opcode
                          (AddOpcode_narrow evalLater val addrMode) error1 of
                     None \<Rightarrow> None
                   | Some (error2, codeArg, opcode) \<Rightarrow>
                       if error2 = STATUS_OK
                       then AddOpcode_emit codeArg opcode evalLater val expression src_file st
                       else Some (error2, st))))"

subsection \<open>Facts about \<^verbatim>\<open>AddOpcode\<close> for an operand without a comma\<close>

text \<open>
  An operand that holds no comma and does not begin with \<^verbatim>\<open>(\<close>, \<^verbatim>\<open>#\<close> or \<^verbatim>\<open>.\<close> reaches the
  \<^verbatim>\<open>default\<close> case of \<^verbatim>\<open>GetAddressMode\<close> (or is empty). There
  \<^verbatim>\<open>expression = line.split_token_trim(',')\<close> is the empty string, so \<^verbatim>\<open>AddOpcode\<close> does not
  evaluate anything: \<^verbatim>\<open>value\<close> stays 0 and \<^verbatim>\<open>evalLater\<close> false, and the test
  \<^verbatim>\<open>value>=0 && value<0x100\<close> turns the absolute modes into zero-page modes.
\<close>

lemmas opcode_simps = AddOpcode_def AddOpcode_operand_def AddOpcode_narrow_def AddOpcode_encode_def
  AddOpcode_emit_def OPG_SUBROUT_def OPG_CC01_def OPG_CC10_def OPG_STACK_def OPG_BRANCH_def
  OPG_FLAG_def OPG_CC00_def OPG_TRANS_def OPI_JSR_def OPI_LDX_def OPI_STX_def OPI_STA_def
  OPI_JMP_def aMulAddGroup_def CC00ModeAdd_def CC00Mask_def CC10ModeAdd_def CC10Mask_def
  mask_has_def two_byte_mode_def

lemma zero_in_zero_page: "(0 :: u32) \<le>s 0" "(0 :: u32) <s 0x100"
  by (simp_all add: word_sle_eq word_sless_alt)

lemma split_token_trim_no_comma:
  "find_char s c < 0 \<Longrightarrow> split_token_trim c s = ([], trim_whitespace s)"
  by (simp add: split_token_trim_def split_token_def trim_whitespace_def
      clip_trailing_whitespace_def skip_whitespace_def skip_def len_whitespace_def)

lemma GetAddressMode_no_comma:
  assumes "find_char line CHR '','' < 0"
    and "get_first line \<noteq> CHR ''(''" "get_first line \<noteq> CHR ''#''" "get_first line \<noteq> CHR ''.''"
  shows "\<exists>m. GetAddressMode line False STATUS_OK [] = (m, STATUS_OK, []) \<and>
           (m = AM_NONE \<or> m = AM_ACCUMULATOR \<or> m = AM_ABSOLUTE \<or> m = AM_ABSOLUTE_X \<or>
            m = AM_ABSOLUTE_Y) \<and>
           (get_first line \<noteq> CHR 0x00 \<and> \<not> same_str (get_label line) ''A'' \<and>
            char_at (trim_whitespace line) 0 \<notin> {CHR ''x'', CHR ''X'', CHR ''y'', CHR ''Y''}
              \<longrightarrow> m = AM_ABSOLUTE)"
proof (cases "get_first line = CHR 0x00")
  case True
  then have "GetAddressMode line False STATUS_OK [] = (AM_NONE, STATUS_OK, [])"
    unfolding GetAddressMode_def by (subst GetAddressMode_loop.simps) simp
  then show ?thesis using True by simp
next
  case False
  then have ne: "line \<noteq> []" by (auto simp: get_first_def)
  show ?thesis
  proof (cases "same_str (get_label line) ''A''")
    case True
    then have "GetAddressMode line False STATUS_OK [] = (AM_ACCUMULATOR, STATUS_OK, [])"
      unfolding GetAddressMode_def using False ne assms(2,3,4)
      by (subst GetAddressMode_loop.simps) simp
    then show ?thesis using True by simp
  next
    case notA: False
    define k where "k = trim_whitespace line"
    define relX where "relX = (k \<noteq> [] \<and> (char_at k 0 = CHR ''x'' \<or> char_at k 0 = CHR ''X''))"
    define relY where "relY = (k \<noteq> [] \<and> (char_at k 0 = CHR ''y'' \<or> char_at k 0 = CHR ''Y''))"
    have g: "GetAddressMode line False STATUS_OK [] =
               (if relX then AM_ABSOLUTE_X else if relY then AM_ABSOLUTE_Y else AM_ABSOLUTE,
                STATUS_OK, [])"
      unfolding GetAddressMode_def using False ne assms(2,3,4) notA
      by (subst GetAddressMode_loop.simps)
         (simp add: split_token_trim_no_comma[OF assms(1)] Let_def relX_def relY_def k_def)
    show ?thesis unfolding g using notA by (auto simp: relX_def relY_def k_def)
  qed
qed

lemma AddOpcode_no_comma_branch:
  assumes "find_char line CHR '','' < 0"
    and "get_first line \<noteq> CHR ''(''" "get_first line \<noteq> CHR ''#''" "get_first line \<noteq> CHR ''.''"
  shows "AddOpcode line OPG_BRANCH index src st = Some (ERROR_INVALID_ADDRESSING_MODE_FOR_BRANCH, st)"
proof -
  from GetAddressMode_no_comma[OF assms] obtain m where
    g: "GetAddressMode line False STATUS_OK [] = (m, STATUS_OK, [])" and
    m: "m = AM_NONE \<or> m = AM_ACCUMULATOR \<or> m = AM_ABSOLUTE \<or> m = AM_ABSOLUTE_X \<or> m = AM_ABSOLUTE_Y"
    by blast
  show ?thesis using m by (auto simp: opcode_simps g zero_in_zero_page)
qed

lemma AddOpcode_no_comma_jump:
  assumes "find_char line CHR '','' < 0"
    and "get_first line \<noteq> CHR ''(''" "get_first line \<noteq> CHR ''#''" "get_first line \<noteq> CHR ''.''"
  shows "AddOpcode line OPG_CC00 OPI_JMP src st = Some (ERROR_BAD_ADDRESSING_MODE, st)"
    "AddOpcode line OPG_SUBROUT OPI_JSR src st = Some (ERROR_INVALID_ADDRESSING_MODE_FOR_BRANCH, st)"
proof -
  from GetAddressMode_no_comma[OF assms] obtain m where
    g: "GetAddressMode line False STATUS_OK [] = (m, STATUS_OK, [])" and
    m: "m = AM_NONE \<or> m = AM_ACCUMULATOR \<or> m = AM_ABSOLUTE \<or> m = AM_ABSOLUTE_X \<or> m = AM_ABSOLUTE_Y"
    by blast
  show "AddOpcode line OPG_CC00 OPI_JMP src st = Some (ERROR_BAD_ADDRESSING_MODE, st)"
    using m by (auto simp: opcode_simps g zero_in_zero_page)
  show "AddOpcode line OPG_SUBROUT OPI_JSR src st = Some (ERROR_INVALID_ADDRESSING_MODE_FOR_BRANCH, st)"
    using m by (auto simp: opcode_simps g zero_in_zero_page)
qed

lemma AddOpcode_no_comma_zero_page:
  assumes "find_char line CHR '','' < 0"
    and "get_first line \<noteq> CHR ''(''" "get_first line \<noteq> CHR ''#''" "get_first line \<noteq> CHR ''.''"
    and "get_first line \<noteq> CHR 0x00" "\<not> same_str (get_label line) ''A''"
    and "char_at (trim_whitespace line) 0 \<notin> {CHR ''x'', CHR ''X'', CHR ''y'', CHR ''Y''}"
  shows "AddOpcode line OPG_CC01 index src st =
           Some (STATUS_OK, (emit [of_nat (0x05 + index * 0x20), 0] st)\<lparr>address := address st + 2\<rparr>)"
proof -
  from GetAddressMode_no_comma[OF assms(1,2,3,4)] assms(5,6,7)
  have g: "GetAddressMode line False STATUS_OK [] = (AM_ABSOLUTE, STATUS_OK, [])" by auto
  show ?thesis by (simp add: opcode_simps g zero_in_zero_page)
qed

subsection \<open>Lines and statements (\<^verbatim>\<open>Asm::BuildSegment\<close>)\<close>

text \<open>\<^verbatim>\<open>enum OperationType\<close>, \<^verbatim>\<open>struct OP_ID\<close> and \<^verbatim>\<open>LookupOpCodeIndex\<close> (\<open>None\<close> for -1). As in
  \<open>FindLabelIndex_loop\<close>, \<open>first \<le> count\<close> holds throughout and the loop test
  \<^verbatim>\<open>count!=first\<close> is \<open>first < count\<close>.\<close>

datatype OperationType = OT_NONE | OT_MNEMONIC | OT_DIRECTIVE

record OP_ID =
  op_hash :: u32
  op_group :: nat
  op_index :: nat
  op_type :: OperationType

function LookupOpCodeIndex_loop :: "u32 \<Rightarrow> OP_ID list \<Rightarrow> nat \<Rightarrow> nat \<Rightarrow> nat option" where
  "LookupOpCodeIndex_loop hash lookup first count =
     (if first < count then
        (let index = (first + count) div 2;
             read = op_hash (lookup ! index)
         in if hash = read then Some index
            else if hash > read then LookupOpCodeIndex_loop hash lookup (index + 1) count
            else LookupOpCodeIndex_loop hash lookup first index)
      else None)"
  by pat_completeness auto
termination
  by (relation "measure (\<lambda>(hash, lookup, first, count). count - first)") auto

declare LookupOpCodeIndex_loop.simps [simp del]

definition LookupOpCodeIndex :: "u32 \<Rightarrow> OP_ID list \<Rightarrow> nat option" where
  "LookupOpCodeIndex hash lookup = LookupOpCodeIndex_loop hash lookup 0 (length lookup)"

text \<open>\<^verbatim>\<open>(AssemblerDirective)pInstr[op_idx].index\<close>: the directive of a number, \<open>None\<close> for a
  number that is no enumerator (no case of the \<^verbatim>\<open>switch\<close> of \<^verbatim>\<open>ApplyDirective\<close> then).\<close>

definition directive_of :: "nat \<Rightarrow> AssemblerDirective option" where
  "directive_of n =
     (if n = 0 then Some AD_ORG else if n = 1 then Some AD_LOAD else if n = 2 then Some AD_ALIGN
      else if n = 3 then Some AD_MACRO else if n = 4 then Some AD_EVAL
      else if n = 5 then Some AD_BYTES else if n = 6 then Some AD_WORDS
      else if n = 7 then Some AD_TEXT else if n = 8 then Some AD_INCLUDE
      else if n = 9 then Some AD_INCBIN else None)"

text \<open>
  The start of a statement: blanks skipped, a comment cut off, trailing blanks clipped, a
  leading colon passed. With the text goes \<open>offs\<close>, the offset of its first character in
  the code segment of the context (the pointer \<^verbatim>\<open>line.get()\<close>), which \<^verbatim>\<open>ApplyDirective\<close>
  needs for \<^verbatim>\<open>MACRO\<close>.
\<close>

definition statement_start :: "string \<Rightarrow> nat \<Rightarrow> string \<times> nat" where
  "statement_start line offs =
     (let n = len_whitespace line;
          line1 = skip_whitespace line;
          line2 = before_or_full CHR '';'' line1;
          line3 = before_or_full_str ''//'' line2;
          line4 = clip_trailing_whitespace line3
      in if char_at line4 0 = CHR '':'' then (incr line4, offs + n + 1) else (line4, offs + n))"

text \<open>\<^verbatim>\<open>line.split_range_trim(word_char_range, line[0]=='.' ? 1 : 0)\<close> with the offset of the
  rest: (operation, rest, offset of the rest).\<close>

definition split_operation :: "string \<Rightarrow> nat \<Rightarrow> string \<times> string \<times> nat" where
  "split_operation line offs =
     (let pos = (if char_at line 0 = CHR ''.'' then 1 else 0);
          t = find_not_in_range word_char_range line pos;
          (operation, rest) = split_range_trim word_char_range pos line
      in (operation, rest, offs + t + len_whitespace (clip_trailing_whitespace (skip t line))))"

text \<open>The scan of the macros of one hash, \<^verbatim>\<open>while (macro < macros.count() && nameHash==macros.getKey(macro))\<close>:
  the index of the macro of the name, if there is one.\<close>

function BuildSegment_macro_scan :: "(u32 \<times> Macro) list \<Rightarrow> string \<Rightarrow> u32 \<Rightarrow> nat \<Rightarrow> nat option" where
  "BuildSegment_macro_scan tab label nameHash macro =
     (if macro < length tab \<and> nameHash = fst (tab ! macro) then
        (if same_str_case (macro_name (snd (tab ! macro))) label then Some macro
         else BuildSegment_macro_scan tab label nameHash (macro + 1))
      else None)"
  by pat_completeness auto
termination
  by (relation "measure (\<lambda>(tab, label, nameHash, macro). length tab - macro)") auto

declare BuildSegment_macro_scan.simps [simp del]

text \<open>
  The braces of a scope, \<^verbatim>\<open>if (!operation) switch (line[0])\<close>. The status returned by
  \<^verbatim>\<open>CheckLateEval\<close> at a closing brace is dropped. A write to \<^verbatim>\<open>scope_address\<close> below index 0
  has no defined result.
\<close>

definition BuildSegment_scope ::
  "string \<Rightarrow> nat \<Rightarrow> StatusCode \<Rightarrow> Asm \<Rightarrow> (StatusCode \<times> string \<times> nat \<times> Asm) option" where
  "BuildSegment_scope line offs error st =
     (if char_at line 0 = CHR ''{'' then
        (if scope_depth st \<ge> int MAX_SCOPE_DEPTH - 1 then Some (ERROR_TOO_DEEP_SCOPE, line, offs, st)
         else if scope_depth st + 1 < 0 then None
         else
           (let line1 = incr line
            in Some (error, skip_whitespace line1, offs + 1 + len_whitespace line1,
                     st\<lparr>scope_depth := scope_depth st + 1,
                        scope_address := (scope_address st)[nat (scope_depth st + 1) := address st]\<rparr>)))
      else if char_at line 0 = CHR ''}'' then
        (case CheckLateEval [] (address st) st of
           None \<Rightarrow> None
         | Some (status, st1) \<Rightarrow>
             (let st2 = st1\<lparr>scope_depth := scope_depth st1 - 1\<rparr>;
                  line1 = incr line
              in Some (if scope_depth st2 < 0 then ERROR_UNBALANCED_SCOPE_CLOSURE else error,
                       skip_whitespace line1, offs + 1 + len_whitespace line1, st2)))
      else Some (error, line, offs, st))"

text \<open>
  The body of the loop over a line, up to the handling of the error: one statement. The
  result is \<^verbatim>\<open>error\<close>, what is left of the line with its offset, whether the body left the
  loop with \<^verbatim>\<open>break\<close> (the assignment of a label does, on an error of its expression), and
  the state. \<open>pInstr\<close> is the table of the instructions and directives; \<open>LoadText\<close> and
  \<open>LoadBinary\<close> are the files as in \<open>ApplyDirective\<close>, and \<open>expand m args\<close> is the text of the
  macro \<open>m\<close> expanded with the arguments, as in \<open>BuildMacro\<close>.
\<close>

definition BuildSegment_statement ::
  "(string \<Rightarrow> string option) \<Rightarrow> (string \<Rightarrow> u8 list option) \<Rightarrow> (Macro \<Rightarrow> string \<Rightarrow> string option) \<Rightarrow>
     OP_ID list \<Rightarrow> string \<Rightarrow> nat \<Rightarrow> StatusCode \<Rightarrow> Asm
     \<Rightarrow> (StatusCode \<times> string \<times> nat \<times> bool \<times> Asm) option" where
  "BuildSegment_statement LoadText LoadBinary expand pInstr line0 offs0 error st =
     (let (line1, offs1) = statement_start line0 offs0;
          (operation1, line2, offs2) = split_operation line1 offs1;
          dotted = (char_at operation1 0 = CHR ''.'');
          operation2 = (if dotted then incr operation1 else operation1);
          again = (dotted \<and> (same_str operation2 ''label'' \<or> same_str operation2 ''const''));
          (operation, line, offs) = (if again then split_operation line2 offs2
                                     else (operation2, line2, offs2));
          label = (if again then operation else operation1)
      in if operation = [] then
           (case BuildSegment_scope line offs error st of
              None \<Rightarrow> None
            | Some (error', line', offs', st') \<Rightarrow> Some (error', line', offs', False, st'))
         else
           (case (if char_at line 0 \<noteq> CHR '':'' then LookupOpCodeIndex (fnv1a_lower operation) pInstr
                  else None) of
              Some op_idx \<Rightarrow>
                (case contextStack st of
                   [] \<Rightarrow> None
                 | ctx # below \<Rightarrow>
                     (let id = pInstr ! op_idx in
                      if op_type id = OT_DIRECTIVE then
                        (case directive_of (op_index id) of
                           None \<Rightarrow> Some (STATUS_OK, [], offs, False, st)
                         | Some dir \<Rightarrow>
                             (case ApplyDirective LoadText LoadBinary dir line offs (source_file ctx) st of
                                None \<Rightarrow> None
                              | Some (error', st') \<Rightarrow> Some (error', [], offs, False, st')))
                      else if op_type id = OT_MNEMONIC then
                        (case AddOpcode line (op_group id) (op_index id) (source_file ctx) st of
                           None \<Rightarrow> None
                         | Some (error', st') \<Rightarrow> Some (error', [], offs, False, st'))
                      else Some (error, line, offs, False, st)))
            | None \<Rightarrow>
                if get_first line = CHR ''='' then
                  (case BuildSegment_assign label (trim_whitespace (incr line)) error st of
                     None \<Rightarrow> None
                   | Some (error', brk, st') \<Rightarrow>
                       if brk then Some (error', line, offs, True, st')
                       else Some (error', [], offs, False, st'))
                else
                  (case BuildSegment_macro_scan (macros st) label (fnv1a label)
                          (FindLabelIndex (fnv1a label) (getKeys (macros st))) of
                     Some macro \<Rightarrow>
                       (let m = snd (macros st ! macro) in
                        case BuildMacro m line (expand m line) st of
                          None \<Rightarrow> None
                        | Some (status, st') \<Rightarrow> Some (error, [], offs, False, st'))
                   | None \<Rightarrow>
                       (case BuildSegment_label label st of
                          None \<Rightarrow> None
                        | Some (error', st') \<Rightarrow>
                            if char_at line 0 = CHR '':''
                            then Some (error', incr line, offs + 1, False, st')
                            else Some (error', line, offs, False, st')))))"

text \<open>
  The end of the body: an error above \<^verbatim>\<open>STATUS_NOT_READY\<close> is written to \<^verbatim>\<open>stderr\<close>
  (\<open>diagnostics\<close> collects the statuses written); an error above
  \<^verbatim>\<open>ERROR_STOP_PROCESSING_ON_HIGHER\<close> leaves the loop over the line with \<^verbatim>\<open>break\<close>, keeping
  \<^verbatim>\<open>error\<close>; otherwise \<^verbatim>\<open>error\<close> is reset and the loop goes on with the rest of the line.
  \<open>BuildSegment_line\<close> is the loop \<^verbatim>\<open>while (line)\<close>: the result is \<^verbatim>\<open>error\<close> and the state when
  the loop is left. A statement that consumes nothing (a line of \<^verbatim>\<open>=\<close> alone) keeps the
  loop running: not returning is \<open>None\<close>.
\<close>

partial_function (option) BuildSegment_line ::
  "(string \<Rightarrow> string option) \<Rightarrow> (string \<Rightarrow> u8 list option) \<Rightarrow> (Macro \<Rightarrow> string \<Rightarrow> string option) \<Rightarrow>
     OP_ID list \<Rightarrow> string \<Rightarrow> nat \<Rightarrow> StatusCode \<Rightarrow> Asm \<Rightarrow> (StatusCode \<times> Asm) option" where
  "BuildSegment_line LoadText LoadBinary expand pInstr line offs error st =
     (if line = [] then Some (error, st)
      else
        (case BuildSegment_statement LoadText LoadBinary expand pInstr line offs error st of
           None \<Rightarrow> None
         | Some (error', line', offs', brk, st') \<Rightarrow>
             if brk then Some (error', st')
             else
               (let st'' = (if status_num error' > status_num STATUS_NOT_READY
                            then st'\<lparr>diagnostics := diagnostics st' @ [error']\<rparr> else st')
                in if status_num error' > status_num ERROR_STOP_PROCESSING_ON_HIGHER
                   then Some (error', st'')
                   else BuildSegment_line LoadText LoadBinary expand pInstr line' offs' STATUS_OK st'')))"

declare BuildSegment_line.simps [code]

text \<open>
  The loop \<^verbatim>\<open>while (strref line = contextStack.curr().read_source.line())\<close>: the next line
  that is not empty is taken from the text of the context on top of the stack, and the
  loop over the line is run with the value \<^verbatim>\<open>error\<close> has. The loop ends when that text is
  used up.
\<close>

partial_function (option) BuildSegment_lines ::
  "(string \<Rightarrow> string option) \<Rightarrow> (string \<Rightarrow> u8 list option) \<Rightarrow> (Macro \<Rightarrow> string \<Rightarrow> string option) \<Rightarrow>
     OP_ID list \<Rightarrow> StatusCode \<Rightarrow> Asm \<Rightarrow> (StatusCode \<times> Asm) option" where
  "BuildSegment_lines LoadText LoadBinary expand pInstr error st =
     (case contextStack st of
        [] \<Rightarrow> None
      | ctx # below \<Rightarrow>
          (let (line, offs, rest) = line_from 0 (read_source ctx);
               st1 = st\<lparr>contextStack := ctx\<lparr>read_source := rest\<rparr> # below\<rparr>
           in if line = [] then Some (error, st1)
              else
                (case BuildSegment_line LoadText LoadBinary expand pInstr line
                        (length (code_segment ctx) - length (read_source ctx) + offs) error st1 of
                   None \<Rightarrow> None
                 | Some (error', st2) \<Rightarrow>
                     BuildSegment_lines LoadText LoadBinary expand pInstr error' st2)))"

declare BuildSegment_lines.simps [code]

text \<open>\<^verbatim>\<open>Asm::BuildSegment\<close>.\<close>

definition BuildSegment ::
  "(string \<Rightarrow> string option) \<Rightarrow> (string \<Rightarrow> u8 list option) \<Rightarrow> (Macro \<Rightarrow> string \<Rightarrow> string option) \<Rightarrow>
     OP_ID list \<Rightarrow> Asm \<Rightarrow> (StatusCode \<times> Asm) option" where
  "BuildSegment LoadText LoadBinary expand pInstr st =
     (case BuildSegment_lines LoadText LoadBinary expand pInstr STATUS_OK st of
        None \<Rightarrow> None
      | Some (error, st') \<Rightarrow>
          if error = STATUS_OK then CheckLateEval [] (address st') st' else Some (error, st'))"

subsection \<open>A segment of two lines\<close>

text \<open>
  The text \<^verbatim>\<open>ORG foo\<close>, a line feed, \<^verbatim>\<open>ORG $2000\<close>, as the file \<^verbatim>\<open>t.s\<close> in the state of
  \<^verbatim>\<open>Asm()\<close>; \<open>org_twice unread\<close> is that state with \<open>unread\<close> left to read. \<open>org_table\<close> is a
  table of instructions that holds the directive \<^verbatim>\<open>ORG\<close> alone.
\<close>

definition org_twice_src :: string where
  "org_twice_src = ''ORG foo'' @ [CHR 0x0A] @ ''ORG $2000''"

definition org_twice :: "string \<Rightarrow> Asm" where
  "org_twice unread =
     Asm_init\<lparr>contextStack := [\<lparr>source_name = ''t.s'', source_file = org_twice_src,
                                 code_segment = org_twice_src, read_source = unread\<rparr>]\<rparr>"

definition org_table :: "OP_ID list" where
  "org_table = [\<lparr>op_hash = fnv1a_lower ''ORG'', op_group = 0xff, op_index = 0, op_type = OT_DIRECTIVE\<rparr>]"

lemma org_twice_start: "context_push ''t.s'' org_twice_src org_twice_src Asm_init = org_twice org_twice_src"
  by (simp add: context_push_def org_twice_def Asm_init_def)

lemma org_twice_first_line: "line_from 0 org_twice_src = (''ORG foo'', 0, ''ORG $2000'')"
  by code_simp

lemma org_twice_second_line: "line_from 0 ''ORG $2000'' = (''ORG $2000'', 0, [])"
  by code_simp

lemma org_twice_no_line: "line_from 0 [] = ([], 0, [])"
  by code_simp

lemma org_twice_offset: "length org_twice_src - length ''ORG $2000'' + 0 = 8"
  by code_simp

lemma org_foo_start: "statement_start ''ORG foo'' 0 = (''ORG foo'', 0)"
  by code_simp

lemma org_foo_operation: "split_operation ''ORG foo'' 0 = (''ORG'', ''foo'', 4)"
  by code_simp

lemma org_2000_start: "statement_start ''ORG $2000'' 8 = (''ORG $2000'', 8)"
  by code_simp

lemma org_2000_operation: "split_operation ''ORG $2000'' 8 = (''ORG'', ''$2000'', 12)"
  by code_simp

lemma org_foo_directive:
  "ApplyDirective_org ''foo'' (org_twice ''ORG $2000'') =
     Some (ERROR_TARGET_ADDRESS_MUST_EVALUATE_IMMEDIATELY, org_twice ''ORG $2000'')"
  by code_simp

lemma org_2000_directive:
  "ApplyDirective_org ''$2000'' ((org_twice [])\<lparr>diagnostics := [ERROR_TARGET_ADDRESS_MUST_EVALUATE_IMMEDIATELY]\<rparr>) =
     Some (STATUS_OK,
       (org_twice [])\<lparr>address := 0x2000, load_address := 0x2000,
          scope_address := 0x2000 # replicate 31 0, set_load_address := True,
          diagnostics := [ERROR_TARGET_ADDRESS_MUST_EVALUATE_IMMEDIATELY]\<rparr>)"
  by code_simp

lemma BuildSegment_statement_ORG:
  assumes "LookupOpCodeIndex (fnv1a_lower ''ORG'') pInstr = Some i"
    and "op_type (pInstr ! i) = OT_DIRECTIVE" and "op_index (pInstr ! i) = 0"
    and "statement_start line0 offs0 = (line1, offs1)"
    and "split_operation line1 offs1 = (''ORG'', line, offs)"
    and "char_at line 0 \<noteq> CHR '':''" and "contextStack st = ctx # below"
  shows "BuildSegment_statement LoadText LoadBinary expand pInstr line0 offs0 error st =
           (case ApplyDirective_org line st of
              None \<Rightarrow> None
            | Some (error', st') \<Rightarrow> Some (error', [], offs, False, st'))"
proof -
  have d: "char_at ''ORG'' 0 \<noteq> CHR ''.''" by (simp add: char_at_def)
  show ?thesis
    unfolding BuildSegment_statement_def
    by (simp add: assms d Let_def directive_of_def ApplyDirective_def)
qed

lemma status_above:
  "status_num ERROR_TARGET_ADDRESS_MUST_EVALUATE_IMMEDIATELY > status_num STATUS_NOT_READY"
  "status_num ERROR_TARGET_ADDRESS_MUST_EVALUATE_IMMEDIATELY > status_num ERROR_STOP_PROCESSING_ON_HIGHER"
  "\<not> status_num STATUS_OK > status_num STATUS_NOT_READY"
  "\<not> status_num STATUS_OK > status_num ERROR_STOP_PROCESSING_ON_HIGHER"
  by code_simp+

lemma status_stop_above:
  "status_num ERROR_STOP_PROCESSING_ON_HIGHER < status_num e \<Longrightarrow> status_num STATUS_NOT_READY < status_num e"
  by (cases e) simp_all

lemma BuildSegment_line_empty:
  "BuildSegment_line LoadText LoadBinary expand pInstr [] offs error st = Some (error, st)"
  by (subst BuildSegment_line.simps) simp

lemma BuildSegment_line_stop:
  assumes "line \<noteq> []"
    and "BuildSegment_statement LoadText LoadBinary expand pInstr line offs error st =
           Some (error', line', offs', False, st')"
    and "status_num ERROR_STOP_PROCESSING_ON_HIGHER < status_num error'"
  shows "BuildSegment_line LoadText LoadBinary expand pInstr line offs error st =
           Some (error', st'\<lparr>diagnostics := diagnostics st' @ [error']\<rparr>)"
  using assms by (subst BuildSegment_line.simps) (simp add: Let_def)

lemma BuildSegment_line_next:
  assumes "line \<noteq> []"
    and "BuildSegment_statement LoadText LoadBinary expand pInstr line offs error st =
           Some (error', line', offs', False, st')"
    and "\<not> status_num STATUS_NOT_READY < status_num error'"
  shows "BuildSegment_line LoadText LoadBinary expand pInstr line offs error st =
           BuildSegment_line LoadText LoadBinary expand pInstr line' offs' STATUS_OK st'"
  using assms by (subst BuildSegment_line.simps) (simp add: Let_def)

lemma BuildSegment_lines_step:
  assumes "contextStack st = ctx # below"
    and "line_from 0 (read_source ctx) = (line, offs, rest)" and "line \<noteq> []"
    and "st1 = st\<lparr>contextStack := ctx\<lparr>read_source := rest\<rparr> # below\<rparr>"
    and "offs1 = length (code_segment ctx) - length (read_source ctx) + offs"
    and "BuildSegment_line LoadText LoadBinary expand pInstr line offs1 error st1 = Some (error', st2)"
  shows "BuildSegment_lines LoadText LoadBinary expand pInstr error st =
           BuildSegment_lines LoadText LoadBinary expand pInstr error' st2"
  using assms(3,6) unfolding assms(4,5)
  by (subst BuildSegment_lines.simps) (simp add: assms(1,2))

lemma BuildSegment_lines_end:
  assumes "contextStack st = ctx # below"
    and "line_from 0 (read_source ctx) = ([], offs, rest)"
  shows "BuildSegment_lines LoadText LoadBinary expand pInstr error st =
           Some (error, st\<lparr>contextStack := ctx\<lparr>read_source := rest\<rparr> # below\<rparr>)"
  by (subst BuildSegment_lines.simps) (simp add: assms)

lemma org_twice_run:
  assumes "LookupOpCodeIndex (fnv1a_lower ''ORG'') pInstr = Some i"
    and "op_type (pInstr ! i) = OT_DIRECTIVE" and "op_index (pInstr ! i) = 0"
  shows "BuildSegment LoadText LoadBinary expand pInstr
           (context_push ''t.s'' org_twice_src org_twice_src Asm_init) =
         Some (STATUS_OK,
           (org_twice [])\<lparr>address := 0x2000, load_address := 0x2000,
              scope_address := 0x2000 # replicate 31 0, set_load_address := True,
              diagnostics := [ERROR_TARGET_ADDRESS_MUST_EVALUATE_IMMEDIATELY]\<rparr>)"
proof -
  let ?E = ERROR_TARGET_ADDRESS_MUST_EVALUATE_IMMEDIATELY
  let ?ctx = "\<lambda>unread. \<lparr>source_name = ''t.s'', source_file = org_twice_src,
              code_segment = org_twice_src, read_source = unread\<rparr>"
  let ?st0 = "org_twice org_twice_src"
  let ?st1 = "org_twice ''ORG $2000''"
  let ?st1' = "?st1\<lparr>diagnostics := diagnostics ?st1 @ [?E]\<rparr>"
  let ?st2 = "(org_twice [])\<lparr>diagnostics := [?E]\<rparr>"
  let ?st3 = "(org_twice [])\<lparr>address := 0x2000, load_address := 0x2000,
              scope_address := 0x2000 # replicate 31 0, set_load_address := True,
              diagnostics := [?E]\<rparr>"
  have c0: "contextStack ?st0 = ?ctx org_twice_src # []" by (simp add: org_twice_def)
  have c1: "contextStack ?st1 = ?ctx ''ORG $2000'' # []" by (simp add: org_twice_def)
  have c1': "contextStack ?st1' = ?ctx ''ORG $2000'' # []" by (simp add: org_twice_def)
  have c2: "contextStack ?st2 = ?ctx [] # []" by (simp add: org_twice_def)
  have c3: "contextStack ?st3 = ?ctx [] # []" by (simp add: org_twice_def)
  have s1: "BuildSegment_statement LoadText LoadBinary expand pInstr ''ORG foo'' 0 STATUS_OK ?st1 =
              Some (?E, [], 4, False, ?st1)"
    by (simp add: BuildSegment_statement_ORG[OF assms org_foo_start org_foo_operation _ c1]
        char_at_def org_foo_directive)
  have l1: "BuildSegment_line LoadText LoadBinary expand pInstr ''ORG foo'' 0 STATUS_OK ?st1 =
              Some (?E, ?st1')"
    by (rule BuildSegment_line_stop[OF _ s1]) simp_all
  have s2: "BuildSegment_statement LoadText LoadBinary expand pInstr ''ORG $2000'' 8 ?E ?st2 =
              Some (STATUS_OK, [], 12, False, ?st3)"
    by (simp add: BuildSegment_statement_ORG[OF assms org_2000_start org_2000_operation _ c2]
        char_at_def org_2000_directive)
  have l2: "BuildSegment_line LoadText LoadBinary expand pInstr ''ORG $2000'' 8 ?E ?st2 =
              Some (STATUS_OK, ?st3)"
    by (simp add: BuildSegment_line_next[OF _ s2] BuildSegment_line_empty)
  have n3: "BuildSegment_lines LoadText LoadBinary expand pInstr STATUS_OK ?st3 = Some (STATUS_OK, ?st3)"
  proof -
    have e: "line_from 0 (read_source (?ctx [])) = ([], 0, [])" by (simp add: org_twice_no_line)
    have u: "?st3\<lparr>contextStack := (?ctx [])\<lparr>read_source := []\<rparr> # []\<rparr> = ?st3"
      by (simp add: org_twice_def)
    show ?thesis using BuildSegment_lines_end[OF c3 e] unfolding u .
  qed
  have n2: "BuildSegment_lines LoadText LoadBinary expand pInstr ?E ?st1' =
              BuildSegment_lines LoadText LoadBinary expand pInstr STATUS_OK ?st3"
  proof (rule BuildSegment_lines_step[OF c1' _ _ _ _ l2])
    show "line_from 0 (read_source (?ctx ''ORG $2000'')) = (''ORG $2000'', 0, [])"
      by (simp add: org_twice_second_line)
    show "''ORG $2000'' \<noteq> []" by simp
    show "?st2 = ?st1'\<lparr>contextStack := (?ctx ''ORG $2000'')\<lparr>read_source := []\<rparr> # []\<rparr>"
      by (simp add: org_twice_def Asm_init_def)
    show "8 = length (code_segment (?ctx ''ORG $2000'')) - length (read_source (?ctx ''ORG $2000'')) + 0"
      using org_twice_offset by simp
  qed
  have n1: "BuildSegment_lines LoadText LoadBinary expand pInstr STATUS_OK ?st0 =
              BuildSegment_lines LoadText LoadBinary expand pInstr ?E ?st1'"
  proof (rule BuildSegment_lines_step[OF c0 _ _ _ _ l1])
    show "line_from 0 (read_source (?ctx org_twice_src)) = (''ORG foo'', 0, ''ORG $2000'')"
      by (simp add: org_twice_first_line)
    show "''ORG foo'' \<noteq> []" by simp
    show "?st1 = ?st0\<lparr>contextStack := (?ctx org_twice_src)\<lparr>read_source := ''ORG $2000''\<rparr> # []\<rparr>"
      by (simp add: org_twice_def)
    show "0 = length (code_segment (?ctx org_twice_src)) - length (read_source (?ctx org_twice_src)) + 0"
      by simp
  qed
  have f: "CheckLateEval [] (address ?st3) ?st3 = Some (STATUS_OK, ?st3)"
    by (rule CheckLateEval_empty) (simp add: org_twice_def Asm_init_def)
  show ?thesis
    unfolding BuildSegment_def org_twice_start n1 n2 n3 using f by simp
qed

section \<open>Properties\<close>

text \<open>
  C8. For a table of hashes sorted in ascending order, \<open>FindLabelIndex\<close> called with a hash
  that occurs in the table returns the lowest index holding that hash (the start of the run
  of equal entries, which the callers then scan comparing names); called with a hash that
  does not occur, it returns an index at which inserting the hash keeps the table sorted.
\<close>

theorem FindLabelIndex_lowest_or_insertion_point:
  assumes "sorted table"
  shows "(hash \<in> set table \<longrightarrow>
            FindLabelIndex hash table < length table \<and>
            table ! FindLabelIndex hash table = hash \<and>
            (\<forall>j < FindLabelIndex hash table. table ! j < hash)) \<and>
         (hash \<notin> set table \<longrightarrow>
            FindLabelIndex hash table \<le> length table \<and>
            (\<forall>j < FindLabelIndex hash table. table ! j < hash) \<and>
            (\<forall>j. FindLabelIndex hash table \<le> j \<and> j < length table \<longrightarrow> hash < table ! j) \<and>
            sorted (take (FindLabelIndex hash table) table @ [hash] @
                    drop (FindLabelIndex hash table) table))"
proof -
  let ?r = "FindLabelIndex hash table"
  have lb: "lower_bound hash table ?r" using assms by (rule FindLabelIndex_lower_bound)
  have le: "?r \<le> length table" using lb by (simp add: lower_bound_def)
  have below: "\<forall>j < ?r. table ! j < hash" using lower_bound_nth(1)[OF lb] by blast
  have above: "\<And>j. ?r \<le> j \<Longrightarrow> j < length table \<Longrightarrow> hash \<le> table ! j"
    using lower_bound_nth(2)[OF lb] by blast
  have present: "?r < length table \<and> table ! ?r = hash" if "hash \<in> set table"
  proof -
    from that obtain k where k: "k < length table" "table ! k = hash"
      by (auto simp: in_set_conv_nth)
    have "\<not> k < ?r" using below k by auto
    then have rk: "?r \<le> k" by simp
    then have lt: "?r < length table" using k by simp
    have "hash \<le> table ! ?r" using above[of ?r] lt by simp
    moreover have "table ! ?r \<le> table ! k"
      using assms rk k by (intro sorted_nth_mono) auto
    ultimately show ?thesis using lt k by simp
  qed
  have absent: "hash < table ! j" if "hash \<notin> set table" "?r \<le> j" "j < length table" for j
  proof -
    have "hash \<le> table ! j" using above that by simp
    moreover have "table ! j \<noteq> hash" using that by (metis nth_mem)
    ultimately show ?thesis by simp
  qed
  show ?thesis
    using present below le absent lower_bound_insert_sorted[OF assms lb] by blast
qed

theorem FindLabelIndex_lowest_or_insertion_point_witness:
  "sorted [1, 3, 3, 5 :: u32] \<and> (3 :: u32) \<in> set [1, 3, 3, 5] \<and> (4 :: u32) \<notin> set [1, 3, 3, 5] \<and>
   FindLabelIndex 3 [1, 3, 3, 5] = 1 \<and> [1, 3, 3, 5 :: u32] ! FindLabelIndex 3 [1, 3, 3, 5] = 3 \<and>
   FindLabelIndex 4 [1, 3, 3, 5] = 3 \<and>
   sorted (take (FindLabelIndex 4 [1, 3, 3, 5]) [1, 3, 3, 5 :: u32] @ [4] @
           drop (FindLabelIndex 4 [1, 3, 3, 5]) [1, 3, 3, 5])"
proof -
  have h: "sorted [1, 3, 3, 5 :: u32]" by simp
  have e3: "FindLabelIndex 3 [1, 3, 3, 5] = 1"
    by (simp add: FindLabelIndex_def FindLabelIndex_loop.simps)
  have e4: "FindLabelIndex 4 [1, 3, 3, 5] = 3"
    by (simp add: FindLabelIndex_def FindLabelIndex_loop.simps)
  show ?thesis
    using FindLabelIndex_lowest_or_insertion_point[OF h, of 3]
      FindLabelIndex_lowest_or_insertion_point[OF h, of 4] h e3 e4
    by simp
qed

text \<open>
  C10. \<open>EvalExpression\<close> called on an empty expression, or on one that a single leading
  \<^verbatim>\<open>>\<close> or \<^verbatim>\<open><\<close> leaves empty, returns \<open>STATUS_OK\<close> with the result 0 (the first value
  slot is set to 0 before the loop). In the fold of the postfix form an operator that finds
  fewer than two values on the stack ends the fold without an error and leaves the value
  array as it is. No call of \<open>EvalExpression\<close> returns \<open>ERROR_EXPRESSION_MISSING_VALUES\<close>.
\<close>

theorem EvalExpression_empty_is_zero_and_never_missing_values:
  "EvalExpression tab [] pc scope_pc scope_end_pc result = Some (STATUS_OK, 0) \<and>
   EvalExpression tab ''>'' pc scope_pc scope_end_pc result = Some (STATUS_OK, 0) \<and>
   EvalExpression tab ''<'' pc scope_pc scope_end_pc result = Some (STATUS_OK, 0) \<and>
   (op \<noteq> EVOP_VAL \<and> sp < 2 \<longrightarrow> rpn_fold (op # ops) sp valIdx vals = Some (Inr vals)) \<and>
   EvalExpression tab' e pc' scope_pc' scope_end_pc' result' \<noteq>
     Some (ERROR_EXPRESSION_MISSING_VALUES, r)"
proof -
  have empty: "EvalExpression tab [] pc scope_pc scope_end_pc result = Some (STATUS_OK, 0)"
    by (simp add: EvalExpression_def char_at_def EvalExpression_loop.simps)
  have hi: "EvalExpression tab ''>'' pc scope_pc scope_end_pc result = Some (STATUS_OK, 0)"
    by (simp add: EvalExpression_def char_at_def EvalExpression_loop.simps incr_def)
  have lo: "EvalExpression tab ''<'' pc scope_pc scope_end_pc result = Some (STATUS_OK, 0)"
    by (simp add: EvalExpression_def char_at_def EvalExpression_loop.simps incr_def)
  have fold: "op \<noteq> EVOP_VAL \<and> sp < 2 \<longrightarrow> rpn_fold (op # ops) sp valIdx vals = Some (Inr vals)"
    by simp
  have never: "EvalExpression tab' e pc' scope_pc' scope_end_pc' result' \<noteq>
      Some (ERROR_EXPRESSION_MISSING_VALUES, r)"
    using EvalExpression_status[of tab' e pc' scope_pc' scope_end_pc' result'
        ERROR_EXPRESSION_MISSING_VALUES r] by blast
  show ?thesis using empty hi lo fold never by blast
qed

theorem EvalExpression_empty_is_zero_and_never_missing_values_witness:
  "EvalExpression [] [] 4096 4096 (- 1) 7 = Some (STATUS_OK, 0) \<and>
   EvalExpression [] ''>'' 4096 4096 (- 1) 7 = Some (STATUS_OK, 0) \<and>
   EvalExpression [] ''<'' 4096 4096 (- 1) 7 = Some (STATUS_OK, 0) \<and>
   EVOP_ADD \<noteq> EVOP_VAL \<and> (1 :: nat) < 2 \<and>
   rpn_fold [EVOP_ADD] 1 1 [5] = Some (Inr [5]) \<and>
   EvalExpression [] ''+'' 4096 4096 (- 1) 7 \<noteq> Some (ERROR_EXPRESSION_MISSING_VALUES, 7)"
  using EvalExpression_empty_is_zero_and_never_missing_values
    [of "[]" 4096 4096 "- 1" 7 EVOP_ADD 1 "[]" 1 "[5]" "[]" "''+''" 4096 4096 "- 1" 7 7]
  by simp

text \<open>
  C9 (the claim fails on the code). \<open>FlushLocalLabels\<close> does not return in every state.
  The source file with the three label lines \<^verbatim>\<open>liquid$\<close>, \<^verbatim>\<open>costarring$\<close>, \<^verbatim>\<open>start\<close> defines two
  local labels of the same hash and then a global one. After the first two lines the
  table holds \<^verbatim>\<open>costarring$\<close> before \<^verbatim>\<open>liquid$\<close>; \<open>FindLabelIndex\<close> returns the index of
  \<^verbatim>\<open>costarring$\<close> for the name \<^verbatim>\<open>liquid$\<close>, the names differ, and the inner loop of
  \<open>FlushLocalLabels\<close>, which never advances \<open>index\<close>, runs forever: the flush has no
  result, and neither has the definition of the label \<^verbatim>\<open>start\<close> that calls it.
\<close>

theorem FlushLocalLabels_runs_forever_on_hash_collision:
  "BuildSegment_label ''liquid$'' Asm_init = Some (STATUS_OK, local_collision_1) \<and>
   BuildSegment_label ''costarring$'' local_collision_1 = Some (STATUS_OK, local_collision_2) \<and>
   FlushLocalLabels local_collision_2 = None \<and>
   BuildSegment_label ''start'' local_collision_2 = None"
  using local_collision_first local_collision_second local_collision_flush
    local_collision_next_label
  by blast

text \<open>
  C4 (the claim fails on the code). A call of \<open>CheckLateEval\<close> does not scan the queue again
  after a round that resolved a label. With the lines \<^verbatim>\<open>a = b+1\<close>, \<^verbatim>\<open>b = c+1\<close>, \<^verbatim>\<open>c = 5\<close> the
  queue holds the entry of \<open>a\<close> before the entry of \<open>b\<close> when \<open>c\<close> is defined. The call for
  \<open>c\<close> passes the entry of \<open>a\<close> (its expression does not name \<open>c\<close>), resolves \<open>b\<close> to 6 and
  returns: \<open>a\<close> stays unevaluated and queued, although \<open>b\<close> is now known and a further call
  resolves \<open>a\<close> to 7.
\<close>

theorem CheckLateEval_does_not_rescan:
  "BuildSegment_assign ''a'' ''b+1'' STATUS_OK Asm_init = Some (STATUS_OK, False, late_chain_1) \<and>
   BuildSegment_assign ''b'' ''c+1'' STATUS_OK late_chain_1 = Some (STATUS_OK, False, late_chain_2) \<and>
   BuildSegment_assign ''c'' ''5'' STATUS_OK late_chain_2 = Some (STATUS_OK, False, late_chain_3) \<and>
   map le_label (lateEval late_chain_3) = [''a''] \<and>
   map (\<lambda>(k, l). (label_name l, label_value l, label_evaluated l)) (labels late_chain_3) =
     [(''a'', 0, False), (''c'', 5, True), (''b'', 6, True)] \<and>
   CheckLateEval ''b'' (- 1) late_chain_3 = Some (STATUS_OK, late_chain_4) \<and>
   lateEval late_chain_4 = [] \<and>
   map (\<lambda>(k, l). (label_name l, label_value l, label_evaluated l)) (labels late_chain_4) =
     [(''a'', 7, True), (''c'', 5, True), (''b'', 6, True)]"
proof -
  have "map le_label (lateEval late_chain_3) = [''a'']"
    by (simp add: late_chain_3_def late_entry_def)
  moreover have "map (\<lambda>(k, l). (label_name l, label_value l, label_evaluated l)) (labels late_chain_3) =
     [(''a'', 0, False), (''c'', 5, True), (''b'', 6, True)]"
    by (simp add: late_chain_3_def assigned_def)
  moreover have "lateEval late_chain_4 = []"
    by (simp add: late_chain_4_def)
  moreover have "map (\<lambda>(k, l). (label_name l, label_value l, label_evaluated l)) (labels late_chain_4) =
     [(''a'', 7, True), (''c'', 5, True), (''b'', 6, True)]"
    by (simp add: late_chain_4_def assigned_def)
  ultimately show ?thesis
    using late_chain_first late_chain_second late_chain_third late_chain_again by blast
qed

text \<open>
  C6 (the claim as stated fails; this is what the code does). A label defined by an
  assignment is a non-local label too, and \<^verbatim>\<open>BuildSegment\<close> does not flush the local labels
  for it: after the label \<^verbatim>\<open>.a\<close> and the line \<^verbatim>\<open>g = 5\<close>, \<^verbatim>\<open>.a\<close> is still tracked and a lookup
  of \<^verbatim>\<open>.a\<close> finds it.
\<close>

theorem assignment_does_not_flush_local_labels:
  "BuildSegment_label ''.a'' Asm_init = Some (STATUS_OK, local_a_1) \<and>
   \<not> is_local_label ''g'' \<and>
   BuildSegment_assign ''g'' ''5'' STATUS_OK local_a_1 = Some (STATUS_OK, False, local_a_assigned) \<and>
   localLabels local_a_assigned = [''.a''] \<and>
   GetLabel (labels local_a_assigned) ''.a'' = Some 0"
  using local_a_first local_a_assign local_a_lookup
  by (simp add: is_local_label_def char_at_def get_last_def local_a_assigned_def Asm_init_def)

text \<open>
  C6, amended. In a state where the tracked local labels are in the table as
  \<open>locals_tracked\<close> says: a non-local label defined at the current address (\<^verbatim>\<open>label\<close> alone
  on its line, not \<^verbatim>\<open>label = expression\<close>), whose hash is the hash of no tracked local
  label, flushes the local labels. The flush returns, and the definition of the label is
  the call of \<^verbatim>\<open>CheckLateEval\<close> in the flushed state; whenever the definition returns, no
  local label is tracked and a lookup of each formerly tracked name fails. Entering a macro
  expansion always returns, and whenever the macro is expanded (status \<^verbatim>\<open>STATUS_OK\<close>) the
  local labels are flushed in the same sense.
\<close>

theorem label_at_pc_and_macro_flush_local_labels:
  assumes "locals_tracked (localLabels st) (labels st)"
  shows "(\<not> is_local_label label \<and> list_all (\<lambda>n. fnv1a n \<noteq> fnv1a label) (localLabels st) \<longrightarrow>
            (\<exists>st2. flushed (localLabels st) st2 \<and>
                   BuildSegment_label label st = CheckLateEval label (- 1) st2) \<and>
            (\<forall>status st'. BuildSegment_label label st = Some (status, st') \<longrightarrow>
                   flushed (localLabels st) st')) \<and>
         (\<exists>status st'. BuildMacro m arg_list expansion st = Some (status, st') \<and>
                   (status = STATUS_OK \<longrightarrow> flushed (localLabels st) st'))"
proof (intro conjI impI)
  assume a: "\<not> is_local_label label \<and> list_all (\<lambda>n. fnv1a n \<noteq> fnv1a label) (localLabels st)"
  from BuildSegment_label_flushes[OF assms, of label] a obtain st2 where
    st2: "flushed (localLabels st) st2" "BuildSegment_label label st = CheckLateEval label (- 1) st2"
    "\<forall>status st'. CheckLateEval label (- 1) st2 = Some (status, st') \<longrightarrow> flushed (localLabels st) st'"
    by blast
  show "\<exists>st2. flushed (localLabels st) st2 \<and>
          BuildSegment_label label st = CheckLateEval label (- 1) st2"
    using st2(1,2) by blast
  show "\<forall>status st'. BuildSegment_label label st = Some (status, st') \<longrightarrow>
          flushed (localLabels st) st'"
    using st2(2,3) by simp
next
  show "\<exists>status st'. BuildMacro m arg_list expansion st = Some (status, st') \<and>
          (status = STATUS_OK \<longrightarrow> flushed (localLabels st) st')"
    using assms by (rule BuildMacro_flushes)
qed

theorem label_at_pc_and_macro_flush_local_labels_witness:
  "locals_tracked (localLabels local_a_1) (labels local_a_1) \<and>
   \<not> is_local_label ''g'' \<and>
   list_all (\<lambda>n. fnv1a n \<noteq> fnv1a ''g'') (localLabels local_a_1) \<and>
   BuildSegment_label ''g'' local_a_1 = Some (STATUS_OK, local_a_flushed) \<and>
   flushed (localLabels local_a_1) local_a_flushed \<and>
   GetLabel (labels local_a_flushed) ''.a'' = None \<and>
   (\<exists>st'. BuildMacro macro_nop [] None local_a_1 = Some (STATUS_OK, st') \<and>
          flushed (localLabels local_a_1) st')"
proof -
  have nl: "\<not> is_local_label ''g''"
    by (simp add: is_local_label_def char_at_def get_last_def)
  have nc: "list_all (\<lambda>n. fnv1a n \<noteq> fnv1a ''g'') (localLabels local_a_1)"
    by (simp add: local_a_1_def Asm_init_def fnv1a_dot_a fnv1a_g)
  note t = label_at_pc_and_macro_flush_local_labels[OF local_a_tracked,
      of "''g''" macro_nop "[]" None]
  have f: "flushed (localLabels local_a_1) local_a_flushed"
    using t nl nc local_a_label by blast
  have ll: "localLabels local_a_1 = [''.a'']" by (simp add: local_a_1_def Asm_init_def)
  have g: "GetLabel (labels local_a_flushed) ''.a'' = None"
    using f unfolding flushed_def ll by simp
  have m: "\<exists>st'. BuildMacro macro_nop [] None local_a_1 = Some (STATUS_OK, st') \<and>
          flushed (localLabels local_a_1) st'"
    using t local_a_macro by auto
  show ?thesis using local_a_tracked nl nc local_a_label f g m by blast
qed

text \<open>
  C5 (the claim fails on the code). \<^verbatim>\<open>ALIGN 16\<close> at the address \<open>0x1000\<close>, which is a
  multiple of 16 already: the smallest multiple of 16 not below the address is \<open>0x1000\<close>
  itself, so the claim has the address unchanged and no byte written. The directive
  computes \<^verbatim>\<open>add = (address + value-1) % value\<close>, which is 15 here: it writes 15 zero bytes
  and leaves the address at \<open>0x100F\<close>, which is not a multiple of 16.
\<close>

theorem ALIGN_leaves_the_address_off_the_multiple:
  "ApplyDirective (\<lambda>name. None) (\<lambda>name. None) AD_ALIGN ''16'' 0 [] Asm_init =
     Some (STATUS_OK, Asm_init\<lparr>output := replicate 15 0, address := 0x100F\<rparr>) \<and>
   unat (address Asm_init) mod 16 = 0 \<and> unat (0x100F :: u32) mod 16 = 15"
  by code_simp

text \<open>
  C2 (the claim fails on the code). A branch whose operand holds no comma and does not
  begin with \<^verbatim>\<open>(\<close>, \<^verbatim>\<open>#\<close> or \<^verbatim>\<open>.\<close> (a target written as an expression alone, as in
  \<^verbatim>\<open>BNE $1081\<close> or \<^verbatim>\<open>BNE loop\<close>), in any state: \<^verbatim>\<open>AddOpcode\<close> returns
  \<^verbatim>\<open>ERROR_INVALID_ADDRESSING_MODE_FOR_BRANCH\<close> and leaves the state as it is. No displacement
  is computed, nothing is written and nothing is queued for late evaluation, whatever the
  target.
\<close>

theorem branch_with_plain_target_is_refused:
  assumes "find_char line CHR '','' < 0"
    and "get_first line \<noteq> CHR ''(''"
    and "get_first line \<noteq> CHR ''#''"
    and "get_first line \<noteq> CHR ''.''"
  shows "AddOpcode line OPG_BRANCH index src st =
           Some (ERROR_INVALID_ADDRESSING_MODE_FOR_BRANCH, st)"
  using assms by (rule AddOpcode_no_comma_branch)

theorem branch_with_plain_target_is_refused_witness:
  "find_char ''$1081'' CHR '','' < 0 \<and> get_first ''$1081'' \<noteq> CHR ''('' \<and>
   get_first ''$1081'' \<noteq> CHR ''#'' \<and> get_first ''$1081'' \<noteq> CHR ''.'' \<and>
   EvalExpression (labels Asm_init) ''$1081'' (address Asm_init) 0x1000 (- 1) 0 =
     Some (STATUS_OK, 0x1081) \<and>
   (0x1081 :: u32) - (address Asm_init + 2) = 127 \<and>
   AddOpcode ''$1081'' OPG_BRANCH 6 [] Asm_init =
     Some (ERROR_INVALID_ADDRESSING_MODE_FOR_BRANCH, Asm_init) \<and>
   find_char ''fwd'' CHR '','' < 0 \<and> get_first ''fwd'' \<noteq> CHR ''('' \<and>
   get_first ''fwd'' \<noteq> CHR ''#'' \<and> get_first ''fwd'' \<noteq> CHR ''.'' \<and>
   AddOpcode ''fwd'' OPG_BRANCH 6 [] Asm_init =
     Some (ERROR_INVALID_ADDRESSING_MODE_FOR_BRANCH, Asm_init)"
proof -
  have h1: "find_char ''$1081'' CHR '','' < 0" "get_first ''$1081'' \<noteq> CHR ''(''"
    "get_first ''$1081'' \<noteq> CHR ''#''" "get_first ''$1081'' \<noteq> CHR ''.''"
    by (simp_all add: find_char_def get_first_def)
  have h2: "find_char ''fwd'' CHR '','' < 0" "get_first ''fwd'' \<noteq> CHR ''(''"
    "get_first ''fwd'' \<noteq> CHR ''#''" "get_first ''fwd'' \<noteq> CHR ''.''"
    by (simp_all add: find_char_def get_first_def)
  have e: "EvalExpression (labels Asm_init) ''$1081'' (address Asm_init) 0x1000 (- 1) 0 =
     Some (STATUS_OK, 0x1081)"
    by code_simp
  have d: "(0x1081 :: u32) - (address Asm_init + 2) = 127" by (simp add: Asm_init_def)
  show ?thesis
    using branch_with_plain_target_is_refused[OF h1, of 6 "[]" Asm_init]
      branch_with_plain_target_is_refused[OF h2, of 6 "[]" Asm_init] h1 h2 e d
    by blast
qed

text \<open>
  C3 (the claim fails on the code). An instruction whose operand holds no comma and does
  not begin with \<^verbatim>\<open>(\<close>, \<^verbatim>\<open>#\<close> or \<^verbatim>\<open>.\<close> (an address written as an expression alone, as in
  \<^verbatim>\<open>JMP $1234\<close> or \<^verbatim>\<open>LDA count\<close>), in any state. The operand is never evaluated, \<^verbatim>\<open>value\<close>
  stays 0 and the absolute mode is narrowed to zero page whatever the operand is worth
  and whether or not it is known: \<^verbatim>\<open>JMP\<close> is refused with \<^verbatim>\<open>ERROR_BAD_ADDRESSING_MODE\<close> and
  \<^verbatim>\<open>JSR\<close> with \<^verbatim>\<open>ERROR_INVALID_ADDRESSING_MODE_FOR_BRANCH\<close>; an instruction of the group of
  \<^verbatim>\<open>ORA\<close> to \<^verbatim>\<open>SBC\<close> (when the operand is not the accumulator \<^verbatim>\<open>A\<close> and does not begin with
  \<^verbatim>\<open>x\<close> or \<^verbatim>\<open>y\<close>) gets its zero-page opcode \<open>0x05 + index * 0x20\<close> and the operand byte 0,
  and nothing is queued for late evaluation.
\<close>

theorem plain_operand_is_always_narrowed_to_zero_page:
  assumes "find_char line CHR '','' < 0"
    and "get_first line \<noteq> CHR ''(''"
    and "get_first line \<noteq> CHR ''#''"
    and "get_first line \<noteq> CHR ''.''"
  shows "AddOpcode line OPG_CC00 OPI_JMP src st = Some (ERROR_BAD_ADDRESSING_MODE, st) \<and>
         AddOpcode line OPG_SUBROUT OPI_JSR src st =
           Some (ERROR_INVALID_ADDRESSING_MODE_FOR_BRANCH, st) \<and>
         (get_first line \<noteq> CHR 0x00 \<and> \<not> same_str (get_label line) ''A'' \<and>
          char_at (trim_whitespace line) 0 \<notin> {CHR ''x'', CHR ''X'', CHR ''y'', CHR ''Y''} \<longrightarrow>
            AddOpcode line OPG_CC01 index src st =
              Some (STATUS_OK, (emit [of_nat (0x05 + index * 0x20), 0] st)
                                 \<lparr>address := address st + 2\<rparr>))"
  using AddOpcode_no_comma_jump[OF assms] AddOpcode_no_comma_zero_page[OF assms]
  by blast

theorem plain_operand_is_always_narrowed_to_zero_page_witness:
  "find_char ''$1234'' CHR '','' < 0 \<and> get_first ''$1234'' \<noteq> CHR ''('' \<and>
   get_first ''$1234'' \<noteq> CHR ''#'' \<and> get_first ''$1234'' \<noteq> CHR ''.'' \<and>
   EvalExpression (labels Asm_init) ''$1234'' (address Asm_init) 0x1000 (- 1) 0 =
     Some (STATUS_OK, 0x1234) \<and>
   AddOpcode ''$1234'' OPG_CC00 OPI_JMP [] Asm_init = Some (ERROR_BAD_ADDRESSING_MODE, Asm_init) \<and>
   AddOpcode ''$1234'' OPG_SUBROUT OPI_JSR [] Asm_init =
     Some (ERROR_INVALID_ADDRESSING_MODE_FOR_BRANCH, Asm_init) \<and>
   AddOpcode ''$1234'' OPG_CC01 5 [] Asm_init =
     Some (STATUS_OK, Asm_init\<lparr>output := [0xA5, 0], address := 0x1002\<rparr>) \<and>
   find_char ''foo'' CHR '','' < 0 \<and> get_first ''foo'' \<noteq> CHR ''('' \<and>
   get_first ''foo'' \<noteq> CHR ''#'' \<and> get_first ''foo'' \<noteq> CHR ''.'' \<and>
   EvalExpression (labels Asm_init) ''foo'' (address Asm_init) 0x1000 (- 1) 0 =
     Some (STATUS_NOT_READY, 0) \<and>
   AddOpcode ''foo'' OPG_CC01 5 [] Asm_init =
     Some (STATUS_OK, Asm_init\<lparr>output := [0xA5, 0], address := 0x1002\<rparr>)"
proof -
  have h1: "find_char ''$1234'' CHR '','' < 0" "get_first ''$1234'' \<noteq> CHR ''(''"
    "get_first ''$1234'' \<noteq> CHR ''#''" "get_first ''$1234'' \<noteq> CHR ''.''"
    by (simp_all add: find_char_def get_first_def)
  have h2: "find_char ''foo'' CHR '','' < 0" "get_first ''foo'' \<noteq> CHR ''(''"
    "get_first ''foo'' \<noteq> CHR ''#''" "get_first ''foo'' \<noteq> CHR ''.''"
    by (simp_all add: find_char_def get_first_def)
  have p1: "get_first ''$1234'' \<noteq> CHR 0x00 \<and> \<not> same_str (get_label ''$1234'') ''A'' \<and>
     char_at (trim_whitespace ''$1234'') 0 \<notin> {CHR ''x'', CHR ''X'', CHR ''y'', CHR ''Y''}"
    by code_simp
  have p2: "get_first ''foo'' \<noteq> CHR 0x00 \<and> \<not> same_str (get_label ''foo'') ''A'' \<and>
     char_at (trim_whitespace ''foo'') 0 \<notin> {CHR ''x'', CHR ''X'', CHR ''y'', CHR ''Y''}"
    by code_simp
  have e: "EvalExpression (labels Asm_init) ''$1234'' (address Asm_init) 0x1000 (- 1) 0 =
     Some (STATUS_OK, 0x1234)"
    "EvalExpression (labels Asm_init) ''foo'' (address Asm_init) 0x1000 (- 1) 0 =
     Some (STATUS_NOT_READY, 0)"
    by code_simp+
  note t1 = plain_operand_is_always_narrowed_to_zero_page[OF h1, of "[]" Asm_init 5]
  note t2 = plain_operand_is_always_narrowed_to_zero_page[OF h2, of "[]" Asm_init 5]
  have a: "AddOpcode ''$1234'' OPG_CC01 5 [] Asm_init =
     Some (STATUS_OK, Asm_init\<lparr>output := [0xA5, 0], address := 0x1002\<rparr>)"
    using t1 p1 by (simp add: Asm_init_def emit_def)
  have b: "AddOpcode ''foo'' OPG_CC01 5 [] Asm_init =
     Some (STATUS_OK, Asm_init\<lparr>output := [0xA5, 0], address := 0x1002\<rparr>)"
    using t2 p2 by (simp add: Asm_init_def emit_def)
  show ?thesis using t1 h1 h2 e a b by blast
qed




text \<open>
  C7 (the claim fails on the code). The text \<^verbatim>\<open>ORG foo\<close>, line feed, \<^verbatim>\<open>ORG $2000\<close>, assembled
  by \<^verbatim>\<open>BuildSegment\<close> from the state of \<^verbatim>\<open>Asm()\<close>, with any table of instructions in which
  \<^verbatim>\<open>ORG\<close> is found as the directive \<^verbatim>\<open>AD_ORG\<close>. The statement of the first line returns
  \<^verbatim>\<open>ERROR_TARGET_ADDRESS_MUST_EVALUATE_IMMEDIATELY\<close>, an error above
  \<^verbatim>\<open>ERROR_STOP_PROCESSING_ON_HIGHER\<close>. The lines that remain are not abandoned: the second
  line is assembled and moves the address to \<^verbatim>\<open>$2000\<close>, and \<^verbatim>\<open>BuildSegment\<close> returns
  \<^verbatim>\<open>STATUS_OK\<close>; of the error only the line written to \<^verbatim>\<open>stderr\<close> is left.
\<close>

theorem lines_after_a_stopping_error_are_assembled:
  assumes "LookupOpCodeIndex (fnv1a_lower ''ORG'') pInstr = Some i"
    and "op_type (pInstr ! i) = OT_DIRECTIVE" and "op_index (pInstr ! i) = 0"
  shows "BuildSegment_statement LoadText LoadBinary expand pInstr ''ORG foo'' 0 STATUS_OK
             (org_twice ''ORG $2000'') =
           Some (ERROR_TARGET_ADDRESS_MUST_EVALUATE_IMMEDIATELY, [], 4, False, org_twice ''ORG $2000'') \<and>
         status_num ERROR_STOP_PROCESSING_ON_HIGHER <
           status_num ERROR_TARGET_ADDRESS_MUST_EVALUATE_IMMEDIATELY \<and>
         BuildSegment LoadText LoadBinary expand pInstr
             (context_push ''t.s'' org_twice_src org_twice_src Asm_init) =
           Some (STATUS_OK,
             (org_twice [])\<lparr>address := 0x2000, load_address := 0x2000,
                scope_address := 0x2000 # replicate 31 0, set_load_address := True,
                diagnostics := [ERROR_TARGET_ADDRESS_MUST_EVALUATE_IMMEDIATELY]\<rparr>)"
proof -
  have c: "contextStack (org_twice ''ORG $2000'') =
             \<lparr>source_name = ''t.s'', source_file = org_twice_src, code_segment = org_twice_src,
                read_source = ''ORG $2000''\<rparr> # []"
    by (simp add: org_twice_def)
  have s: "BuildSegment_statement LoadText LoadBinary expand pInstr ''ORG foo'' 0 STATUS_OK
             (org_twice ''ORG $2000'') =
           Some (ERROR_TARGET_ADDRESS_MUST_EVALUATE_IMMEDIATELY, [], 4, False, org_twice ''ORG $2000'')"
    by (simp add: BuildSegment_statement_ORG[OF assms org_foo_start org_foo_operation _ c]
        char_at_def org_foo_directive)
  show ?thesis using s org_twice_run[OF assms] by simp
qed

theorem lines_after_a_stopping_error_are_assembled_witness:
  "LookupOpCodeIndex (fnv1a_lower ''ORG'') org_table = Some 0 \<and>
   op_type (org_table ! 0) = OT_DIRECTIVE \<and> op_index (org_table ! 0) = 0 \<and>
   BuildSegment_statement (\<lambda>name. None) (\<lambda>name. None) (\<lambda>m args. None) org_table ''ORG foo'' 0
       STATUS_OK (org_twice ''ORG $2000'') =
     Some (ERROR_TARGET_ADDRESS_MUST_EVALUATE_IMMEDIATELY, [], 4, False, org_twice ''ORG $2000'') \<and>
   BuildSegment (\<lambda>name. None) (\<lambda>name. None) (\<lambda>m args. None) org_table
       (context_push ''t.s'' org_twice_src org_twice_src Asm_init) =
     Some (STATUS_OK,
       (org_twice [])\<lparr>address := 0x2000, load_address := 0x2000,
          scope_address := 0x2000 # replicate 31 0, set_load_address := True,
          diagnostics := [ERROR_TARGET_ADDRESS_MUST_EVALUATE_IMMEDIATELY]\<rparr>) \<and>
   address Asm_init = 0x1000"
proof -
  have h: "LookupOpCodeIndex (fnv1a_lower ''ORG'') org_table = Some 0"
    "op_type (org_table ! 0) = OT_DIRECTIVE" "op_index (org_table ! 0) = 0"
    by code_simp+
  have a: "address Asm_init = 0x1000" by (simp add: Asm_init_def)
  show ?thesis
    using lines_after_a_stopping_error_are_assembled[OF h, of "\<lambda>name. None" "\<lambda>name. None" "\<lambda>m args. None"] h a
    by blast
qed

end
